theory Spec2Isabelle
  imports Main
begin

section \<open>Data model (src/codeAnalyzer/types.ts)\<close>

text \<open>
  The analysis entities are plain objects. Strings are lists of code units, here the
  code units up to \<open>0xFF\<close>; the examples below are ASCII.
  Optional properties (\<open>type?\<close>, \<open>body?\<close>, \<open>codeSnippet?\<close>, \<open>location?\<close>) are options.
  Line numbers are natural numbers. A class object additionally carries the
  \<open>note\<close> property that the chunker adds to a partial class; a parser never sets it.
\<close>

record Parameter =
  param_name :: string
  param_type :: string

record Location =
  loc_file :: string
  startLine :: nat
  endLine :: nat

record FunctionAnalysis =
  fn_name :: string
  fn_type :: "string option"
  fn_parameters :: "Parameter list"
  fn_returnType :: string
  fn_body :: "string option"
  fn_codeSnippet :: "string option"
  fn_documentation :: string
  fn_location :: Location

record ClassProperty =
  prop_name :: string
  prop_type :: string
  prop_documentation :: string

record ClassMethod =
  m_name :: string
  m_type :: "string option"
  m_parameters :: "Parameter list"
  m_returnType :: string
  m_body :: "string option"
  m_codeSnippet :: "string option"
  m_documentation :: string
  m_location :: "Location option"

record ClassAnalysis =
  cls_name :: string
  cls_type :: "string option"
  cls_methods :: "ClassMethod list"
  cls_properties :: "ClassProperty list"
  cls_documentation :: string
  cls_location :: Location
  cls_codeSnippet :: "string option"
  cls_note :: "string option"

record AnalysisResult =
  ar_functions :: "FunctionAnalysis list"
  ar_classes :: "ClassAnalysis list"

section \<open>JSON.stringify on the entities\<close>

text \<open>
  \<open>JSON.stringify\<close> writes an object as its properties in insertion order, with no
  white space, and leaves out a property whose value is \<open>undefined\<close>. Only the length
  of the text is used by the chunker, and the length does not depend on the order of
  the properties; the order below is that of the interface declarations.
\<close>

definition hexDigit :: "nat \<Rightarrow> char" where
  "hexDigit n = ''0123456789abcdef'' ! (n mod 16)"

text \<open>
  A string value is written between double quotes; the double quote and the backslash
  get a backslash, the control characters below 0x20 their short escape or \<open>\u00XX\<close>,
  every other code unit is written as it is.
\<close>

definition isControl :: "char \<Rightarrow> bool" where
  "isControl c \<longleftrightarrow> \<not> (digit5 c \<or> digit6 c \<or> digit7 c)"

definition escapeChar :: "char \<Rightarrow> string" where
  "escapeChar c =
     (if c = CHR 0x22 then [CHR 0x5C, CHR 0x22]
      else if c = CHR 0x5C then [CHR 0x5C, CHR 0x5C]
      else if c = CHR 0x08 then [CHR 0x5C, CHR ''b'']
      else if c = CHR 0x09 then [CHR 0x5C, CHR ''t'']
      else if c = CHR 0x0A then [CHR 0x5C, CHR ''n'']
      else if c = CHR 0x0C then [CHR 0x5C, CHR ''f'']
      else if c = CHR 0x0D then [CHR 0x5C, CHR ''r'']
      else if isControl c then
        [CHR 0x5C, CHR ''u'', CHR ''0'', CHR ''0'',
         hexDigit (of_char c div 16), hexDigit (of_char c)]
      else [c])"

definition quote :: "string \<Rightarrow> string" where
  "quote s = [CHR 0x22] @ concat (map escapeChar s) @ [CHR 0x22]"

fun joinWith :: "string \<Rightarrow> string list \<Rightarrow> string" where
  "joinWith sep [] = []"
| "joinWith sep [x] = x"
| "joinWith sep (x # y # ys) = x @ sep @ joinWith sep (y # ys)"

fun showNat :: "nat \<Rightarrow> string" where
  "showNat n =
     (if n < 10 then [hexDigit n] else showNat (n div 10) @ [hexDigit (n mod 10)])"

text \<open>A property: the key (an identifier, nothing to escape) in quotes, a colon, the value.\<close>

definition field :: "string \<Rightarrow> string \<Rightarrow> string" where
  "field k v = [CHR 0x22] @ k @ [CHR 0x22] @ '':'' @ v"

definition optField :: "string \<Rightarrow> string option \<Rightarrow> string list" where
  "optField k v = (case v of None \<Rightarrow> [] | Some s \<Rightarrow> [field k s])"

definition obj :: "string list \<Rightarrow> string" where
  "obj props = ''{'' @ joinWith '','' props @ ''}''"

definition arr :: "string list \<Rightarrow> string" where
  "arr items = ''['' @ joinWith '','' items @ '']''"

definition stringifyParameter :: "Parameter \<Rightarrow> string" where
  "stringifyParameter p =
     obj [field ''name'' (quote (param_name p)), field ''type'' (quote (param_type p))]"

definition stringifyLocation :: "Location \<Rightarrow> string" where
  "stringifyLocation l =
     obj [field ''file'' (quote (loc_file l)),
          field ''startLine'' (showNat (startLine l)),
          field ''endLine'' (showNat (endLine l))]"

definition stringifyFunction :: "FunctionAnalysis \<Rightarrow> string" where
  "stringifyFunction f =
     obj ([field ''name'' (quote (fn_name f))]
          @ optField ''type'' (map_option quote (fn_type f))
          @ [field ''parameters'' (arr (map stringifyParameter (fn_parameters f))),
             field ''returnType'' (quote (fn_returnType f))]
          @ optField ''body'' (map_option quote (fn_body f))
          @ optField ''codeSnippet'' (map_option quote (fn_codeSnippet f))
          @ [field ''documentation'' (quote (fn_documentation f)),
             field ''location'' (stringifyLocation (fn_location f))])"

definition stringifyProperty :: "ClassProperty \<Rightarrow> string" where
  "stringifyProperty p =
     obj [field ''name'' (quote (prop_name p)),
          field ''type'' (quote (prop_type p)),
          field ''documentation'' (quote (prop_documentation p))]"

definition stringifyMethod :: "ClassMethod \<Rightarrow> string" where
  "stringifyMethod m =
     obj ([field ''name'' (quote (m_name m))]
          @ optField ''type'' (map_option quote (m_type m))
          @ [field ''parameters'' (arr (map stringifyParameter (m_parameters m))),
             field ''returnType'' (quote (m_returnType m))]
          @ optField ''body'' (map_option quote (m_body m))
          @ optField ''codeSnippet'' (map_option quote (m_codeSnippet m))
          @ [field ''documentation'' (quote (m_documentation m))]
          @ optField ''location'' (map_option stringifyLocation (m_location m)))"

definition stringifyClass :: "ClassAnalysis \<Rightarrow> string" where
  "stringifyClass c =
     obj ([field ''name'' (quote (cls_name c))]
          @ optField ''type'' (map_option quote (cls_type c))
          @ [field ''methods'' (arr (map stringifyMethod (cls_methods c))),
             field ''properties'' (arr (map stringifyProperty (cls_properties c))),
             field ''documentation'' (quote (cls_documentation c)),
             field ''location'' (stringifyLocation (cls_location c))]
          @ optField ''codeSnippet'' (map_option quote (cls_codeSnippet c))
          @ optField ''note'' (map_option quote (cls_note c)))"

definition stringifyResult :: "AnalysisResult \<Rightarrow> string" where
  "stringifyResult r =
     obj [field ''functions'' (arr (map stringifyFunction (ar_functions r))),
          field ''classes'' (arr (map stringifyClass (ar_classes r)))]"

section \<open>The chunker (src/mcp/openaiClient.ts, chunkCodebase)\<close>

text \<open>\<open>estimateTokens = (str) => Math.ceil(str.length / 4)\<close>\<close>

definition estimateTokens :: "string \<Rightarrow> nat" where
  "estimateTokens str = (length str + 3) div 4"

definition truncatedBody :: string where
  "truncatedBody = ''/* Body too large, truncated */''"

text \<open>
  The loop over \<open>context.functions\<close>. Its variables \<open>functionChunks\<close>, \<open>currentChunk\<close>
  and \<open>currentSize\<close> are the arguments; the end of the list is the code after the loop.
  A function whose own estimate exceeds the limit is pushed with its body replaced,
  and the loop continues without touching \<open>currentSize\<close>.
\<close>

fun functionLoop ::
  "nat \<Rightarrow> FunctionAnalysis list \<Rightarrow> FunctionAnalysis list list \<Rightarrow> FunctionAnalysis list
     \<Rightarrow> nat \<Rightarrow> FunctionAnalysis list list" where
  "functionLoop maxChunkSize [] functionChunks currentChunk currentSize =
     (if length currentChunk > 0 then functionChunks @ [currentChunk] else functionChunks)"
| "functionLoop maxChunkSize (func # rest) functionChunks currentChunk currentSize =
     (let funcTokens = estimateTokens (stringifyFunction func) in
      if funcTokens > maxChunkSize then
        functionLoop maxChunkSize rest functionChunks
          (currentChunk @ [func\<lparr>fn_body := Some truncatedBody\<rparr>]) currentSize
      else if currentSize + funcTokens > maxChunkSize \<and> length currentChunk > 0 then
        functionLoop maxChunkSize rest (functionChunks @ [currentChunk]) [func] funcTokens
      else
        functionLoop maxChunkSize rest functionChunks (currentChunk @ [func])
          (currentSize + funcTokens))"

text \<open>
  The inner loop over \<open>cls.methods\<close> of a large class. Unlike the two outer loops it
  closes the running group without asking whether the group is empty.
\<close>

fun methodLoop ::
  "nat \<Rightarrow> ClassMethod list \<Rightarrow> ClassMethod list list \<Rightarrow> ClassMethod list \<Rightarrow> nat
     \<Rightarrow> ClassMethod list list" where
  "methodLoop maxChunkSize [] methodChunks currentMethods methodSize =
     (if length currentMethods > 0 then methodChunks @ [currentMethods] else methodChunks)"
| "methodLoop maxChunkSize (method # rest) methodChunks currentMethods methodSize =
     (let methodTokens = estimateTokens (stringifyMethod method) in
      if methodSize + methodTokens > maxChunkSize then
        methodLoop maxChunkSize rest (methodChunks @ [currentMethods]) [method] methodTokens
      else
        methodLoop maxChunkSize rest methodChunks (currentMethods @ [method])
          (methodSize + methodTokens))"

definition partNote :: "nat \<Rightarrow> nat \<Rightarrow> string" where
  "partNote idx n = ''Part '' @ showNat (idx + 1) @ ''/'' @ showNat n @ '' of large class''"

text \<open>\<open>methodChunks.forEach((methods, idx) => ...)\<close>: one partial class per method group.\<close>

definition partialClasses :: "ClassAnalysis \<Rightarrow> ClassMethod list list \<Rightarrow> ClassAnalysis list" where
  "partialClasses cls methodChunks =
     map (\<lambda>(idx, methods).
            cls\<lparr>cls_methods := methods,
                cls_note := Some (partNote idx (length methodChunks))\<rparr>)
         (enumerate 0 methodChunks)"

fun classLoop ::
  "nat \<Rightarrow> ClassAnalysis list \<Rightarrow> ClassAnalysis list list \<Rightarrow> ClassAnalysis list \<Rightarrow> nat
     \<Rightarrow> ClassAnalysis list list" where
  "classLoop maxChunkSize [] classChunks currentChunk currentSize =
     (if length currentChunk > 0 then classChunks @ [currentChunk] else classChunks)"
| "classLoop maxChunkSize (cls # rest) classChunks currentChunk currentSize =
     (let clsTokens = estimateTokens (stringifyClass cls) in
      if clsTokens > maxChunkSize then
        classLoop maxChunkSize rest classChunks
          (currentChunk
             @ partialClasses cls (methodLoop maxChunkSize (cls_methods cls) [] [] 0))
          currentSize
      else if currentSize + clsTokens > maxChunkSize \<and> length currentChunk > 0 then
        classLoop maxChunkSize rest (classChunks @ [currentChunk]) [cls] clsTokens
      else
        classLoop maxChunkSize rest classChunks (currentChunk @ [cls])
          (currentSize + clsTokens))"

text \<open>
  For an \<open>AnalysisResult\<close> both \<open>functions\<close> and \<open>classes\<close> are arrays, so both guards
  \<open>context.functions && Array.isArray(context.functions)\<close> hold and both passes run.
  Every chunk is \<open>{ ...context, functions: funcs }\<close> or \<open>{ ...context, classes }\<close>.
\<close>

definition functionPass :: "AnalysisResult \<Rightarrow> nat \<Rightarrow> AnalysisResult list" where
  "functionPass context maxChunkSize =
     map (\<lambda>funcs. context\<lparr>ar_functions := funcs\<rparr>)
         (functionLoop maxChunkSize (ar_functions context) [] [] 0)"

definition classPass :: "AnalysisResult \<Rightarrow> nat \<Rightarrow> AnalysisResult list" where
  "classPass context maxChunkSize =
     map (\<lambda>clss. context\<lparr>ar_classes := clss\<rparr>)
         (classLoop maxChunkSize (ar_classes context) [] [] 0)"

definition chunkCodebase :: "AnalysisResult \<Rightarrow> nat \<Rightarrow> AnalysisResult list" where
  "chunkCodebase context maxChunkSize =
     (let chunks = functionPass context maxChunkSize @ classPass context maxChunkSize
      in if length chunks > 0 then chunks else [context])"

section \<open>The file system seen by the analyzer\<close>

text \<open>
  What \<open>fs.existsSync\<close>, \<open>fs.readdirSync\<close> and \<open>fs.statSync\<close> can meet at a path:
  a regular file, a directory with its entries in the order \<open>readdirSync\<close> returns
  them, a directory that cannot be read, or a symbolic link whose target is missing
  (\<open>existsSync\<close> is false for it and \<open>statSync\<close> throws).
\<close>

datatype fs_node =
    File
  | Dir "(string \<times> fs_node) list"
  | Unreadable
  | Dangling

datatype fs_error = ENOENT | ENOTDIR | EACCES

definition IGNORED_DIRS :: "string set" where
  "IGNORED_DIRS = {''node_modules'', ''.git'', ''dist'', ''.idea'', ''.vscode''}"

text \<open>
  \<open>path.join(dirPath, file)\<close> for a normalized POSIX directory path and an entry name
  (one component, neither \<open>.\<close> nor \<open>..\<close>). The joined path is normalized: no
  separator is added after a path that ends in one (\<open>/\<close>, \<open>/p/\<close>), and the current
  directory (\<open>.\<close>, \<open>./\<close>) is dropped in front of the name.
\<close>

definition path_join :: "string \<Rightarrow> string \<Rightarrow> string" where
  "path_join dirPath file =
     (if dirPath = [] \<or> dirPath = ''.'' \<or> dirPath = ''./'' then file
      else if last dirPath = CHR ''/'' then dirPath @ file
      else dirPath @ ''/'' @ file)"

text \<open>
  \<open>listFilesRecursively(dirPath)\<close>, with the object found at \<open>dirPath\<close> passed along.
  \<open>forEachEntry\<close> is the body of \<open>list.forEach\<close> with the variable \<open>results\<close>: the
  test of the entry's name against \<open>IGNORED_DIRS\<close> comes first, before \<open>statSync\<close>
  tells whether the entry is a directory.
\<close>

function listFilesRecursively :: "string \<Rightarrow> fs_node \<Rightarrow> fs_error + string list"
  and forEachEntry ::
    "string \<Rightarrow> (string \<times> fs_node) list \<Rightarrow> string list \<Rightarrow> fs_error + string list"
where
  "listFilesRecursively dirPath File = Inl ENOTDIR"
| "listFilesRecursively dirPath Unreadable = Inl EACCES"
| "listFilesRecursively dirPath Dangling = Inl ENOENT"
| "listFilesRecursively dirPath (Dir entries) = forEachEntry dirPath entries []"
| "forEachEntry dirPath [] results = Inr results"
| "forEachEntry dirPath ((file, node) # rest) results =
     (if file \<in> IGNORED_DIRS then forEachEntry dirPath rest results
      else
        (case node of
           Dangling \<Rightarrow> Inl ENOENT
         | File \<Rightarrow> forEachEntry dirPath rest (results @ [path_join dirPath file])
         | _ \<Rightarrow>
             (case listFilesRecursively (path_join dirPath file) node of
                Inl e \<Rightarrow> Inl e
              | Inr found \<Rightarrow> forEachEntry dirPath rest (results @ found))))"
  by pat_completeness auto
termination
  by (relation "measure (\<lambda>x. case x of
          Inl (dirPath, node) \<Rightarrow> 2 * size node + 1
        | Inr (dirPath, entries, results) \<Rightarrow>
            2 * size_list (size_prod (\<lambda>_. 0) size) entries)") auto

section \<open>Parser registry (languageParsers/ParserRegistry.ts)\<close>

definition endsWith :: "string \<Rightarrow> string \<Rightarrow> bool" where
  "endsWith s suffix \<longleftrightarrow> take (length suffix) (rev s) = rev suffix"

datatype parser = TypeScriptParser | BabelParser | YAMLParser

fun canHandle :: "parser \<Rightarrow> string \<Rightarrow> bool" where
  "canHandle TypeScriptParser filePath \<longleftrightarrow> endsWith filePath ''.ts'' \<or> endsWith filePath ''.tsx''"
| "canHandle BabelParser filePath \<longleftrightarrow> endsWith filePath ''.js'' \<or> endsWith filePath ''.jsx''"
| "canHandle YAMLParser filePath \<longleftrightarrow> endsWith filePath ''.yml'' \<or> endsWith filePath ''.yaml''"

text \<open>The static list of the registry; nothing in the repository calls \<open>registerParser\<close>.\<close>

definition parsers :: "parser list" where
  "parsers = [TypeScriptParser, BabelParser, YAMLParser]"

definition getParserForFile :: "string \<Rightarrow> parser option" where
  "getParserForFile filePath = find (\<lambda>parser. canHandle parser filePath) parsers"

section \<open>The project analyzer (codeAnalyzer/projectAnalyzer.ts)\<close>

text \<open>
  What a parser returns: \<open>functions\<close> and \<open>classes\<close> are optional in \<open>ILanguageParser\<close>.
\<close>

record ParseOutput =
  po_functions :: "FunctionAnalysis list option"
  po_classes :: "ClassAnalysis list option"

text \<open>
  The world outside the analyzer: \<open>path.normalize\<close>, the objects of the file system by
  path, and what reading and parsing a file give, where \<open>Inl\<close> carries the message of
  the exception thrown. The parsers themselves (ts-morph, Babel, js-yaml) are not
  modelled beyond their outcome.
\<close>

record world =
  path_normalize :: "string \<Rightarrow> string"
  lookup :: "string \<Rightarrow> fs_node option"
  readFile :: "string \<Rightarrow> string + string"
  parseFile :: "parser \<Rightarrow> string \<Rightarrow> string + ParseOutput"

datatype error = FolderDoesNotExist string | FileSystemError fs_error

text \<open>
  A run of \<open>analyzeProject\<close> that does not throw: the value it returns, and the entries
  \<open>logger.error\<close> wrote in the \<open>catch\<close> block (file and error), in order. The other
  log lines are not modelled.
\<close>

record run =
  returned :: AnalysisResult
  logged :: "(string \<times> string) list"

text \<open>
  \<open>folder.trim()\<close> takes white space and line terminators off both ends. Of the code
  units a \<open>char\<close> can hold these are tab, line feed, vertical tab, form feed, carriage
  return, space and the no-break space U+00A0; the others lie above \<open>0xFF\<close>.
\<close>

definition isSpace :: "char \<Rightarrow> bool" where
  "isSpace c \<longleftrightarrow> (of_char c :: nat) \<in> {9, 10, 11, 12, 13, 32, 160}"

definition trim :: "string \<Rightarrow> string" where
  "trim s = rev (dropWhile isSpace (rev (dropWhile isSpace s)))"

definition existsSync :: "world \<Rightarrow> string \<Rightarrow> bool" where
  "existsSync w p = (case lookup w p of None \<Rightarrow> False | Some Dangling \<Rightarrow> False | Some _ \<Rightarrow> True)"

definition isCodeFile :: "string \<Rightarrow> bool" where
  "isCodeFile file \<longleftrightarrow> endsWith file ''.ts'' \<or> endsWith file ''.js''"

definition orEmpty :: "'a list option \<Rightarrow> 'a list" where
  "orEmpty xs = (case xs of None \<Rightarrow> [] | Some ys \<Rightarrow> ys)"

text \<open>
  The loop \<open>for (const file of codeFiles)\<close>: the \<open>try\<close> body selects the parser,
  reads the file, parses it and pushes the result; the \<open>catch\<close> block logs and
  goes on to the next file.
\<close>

fun analyzeFiles :: "world \<Rightarrow> string list \<Rightarrow> run \<Rightarrow> run" where
  "analyzeFiles w [] r = r"
| "analyzeFiles w (file # rest) r =
     (case getParserForFile file of
        None \<Rightarrow> analyzeFiles w rest r
      | Some parser \<Rightarrow>
          (case readFile w file of
             Inl err \<Rightarrow> analyzeFiles w rest (r\<lparr>logged := logged r @ [(file, err)]\<rparr>)
           | Inr code \<Rightarrow>
               (case parseFile w parser file of
                  Inl err \<Rightarrow> analyzeFiles w rest (r\<lparr>logged := logged r @ [(file, err)]\<rparr>)
                | Inr result \<Rightarrow>
                    analyzeFiles w rest
                      (r\<lparr>returned :=
                           \<lparr>ar_functions =
                              ar_functions (returned r) @ orEmpty (po_functions result),
                            ar_classes =
                              ar_classes (returned r) @ orEmpty (po_classes result)\<rparr>\<rparr>))))"

definition analyzeProject :: "world \<Rightarrow> string \<Rightarrow> error + run" where
  "analyzeProject w folder =
     (let resolvedPath = path_normalize w (trim folder) in
      if \<not> existsSync w resolvedPath then Inl (FolderDoesNotExist resolvedPath)
      else
        (case lookup w resolvedPath of
           None \<Rightarrow> Inl (FolderDoesNotExist resolvedPath)
         | Some node \<Rightarrow>
             (case listFilesRecursively resolvedPath node of
                Inl e \<Rightarrow> Inl (FileSystemError e)
              | Inr files \<Rightarrow>
                  Inr (analyzeFiles w (filter isCodeFile files)
                         \<lparr>returned = \<lparr>ar_functions = [], ar_classes = []\<rparr>,
                          logged = []\<rparr>))))"

section \<open>The chunker over an explicit store\<close>

text \<open>
  To speak of mutation, \<open>chunkCodebase\<close> is written once more with the objects it
  handles in a store: an address is an index into the list of objects, \<open>alloc\<close> adds an
  object at the end, and \<open>push\<close> is the only operation that changes an existing object
  (\<open>Array.prototype.push\<close>; the code assigns to no property of an object). An array
  holds addresses, so pushing \<open>func\<close> shares the entity with the input; \<open>{ ...func,
  body }\<close>, \<open>{ ...cls, methods, note }\<close>, \<open>{ ...context, functions }\<close> and \<open>[...currentChunk]\<close>
  allocate. The properties of an entity (its strings, parameters, methods, location)
  are kept inside the entity's object; the chunker only reads them.
\<close>

datatype obj =
    FunctionObj FunctionAnalysis
  | ClassObj ClassAnalysis
  | ArrayObj "nat list"
  | ContextObj nat nat

type_synonym store = "obj list"

definition alloc :: "obj \<Rightarrow> store \<Rightarrow> nat \<times> store" where
  "alloc v h = (length h, h @ [v])"

definition readObj :: "store \<Rightarrow> nat \<Rightarrow> obj option" where
  "readObj h a = (if a < length h then Some (h ! a) else None)"

definition elements :: "store \<Rightarrow> nat \<Rightarrow> nat list" where
  "elements h a = (case readObj h a of Some (ArrayObj xs) \<Rightarrow> xs | _ \<Rightarrow> [])"

definition push :: "nat \<Rightarrow> nat \<Rightarrow> store \<Rightarrow> store" where
  "push a x h =
     (case readObj h a of Some (ArrayObj xs) \<Rightarrow> h[a := ArrayObj (xs @ [x])] | _ \<Rightarrow> h)"

text \<open>
  The function loop. The elements of \<open>context.functions\<close> are read when the loop starts;
  \<open>functionChunks\<close> and \<open>currentChunk\<close> are the addresses of the two local arrays. An
  element that is not a function object is passed over.
\<close>

fun functionLoopH :: "nat \<Rightarrow> nat list \<Rightarrow> nat \<Rightarrow> nat \<Rightarrow> nat \<Rightarrow> store \<Rightarrow> store" where
  "functionLoopH maxChunkSize [] functionChunks currentChunk currentSize h =
     (if length (elements h currentChunk) > 0 then push functionChunks currentChunk h else h)"
| "functionLoopH maxChunkSize (func # rest) functionChunks currentChunk currentSize h =
     (case readObj h func of
        Some (FunctionObj f) \<Rightarrow>
          (let funcTokens = estimateTokens (stringifyFunction f) in
           if funcTokens > maxChunkSize then
             (case alloc (FunctionObj (f\<lparr>fn_body := Some truncatedBody\<rparr>)) h of
                (funcWithoutBody, h1) \<Rightarrow>
                  functionLoopH maxChunkSize rest functionChunks currentChunk currentSize
                    (push currentChunk funcWithoutBody h1))
           else if currentSize + funcTokens > maxChunkSize
                   \<and> length (elements h currentChunk) > 0 then
             (case alloc (ArrayObj (elements h currentChunk)) h of
                (copy, h1) \<Rightarrow>
                  (case alloc (ArrayObj []) (push functionChunks copy h1) of
                     (newChunk, h2) \<Rightarrow>
                       functionLoopH maxChunkSize rest functionChunks newChunk funcTokens
                         (push newChunk func h2)))
           else
             functionLoopH maxChunkSize rest functionChunks currentChunk
               (currentSize + funcTokens) (push currentChunk func h))
      | _ \<Rightarrow> functionLoopH maxChunkSize rest functionChunks currentChunk currentSize h)"

text \<open>\<open>methodChunks.forEach\<close>: each partial class is a new object, pushed to \<open>currentChunk\<close>.\<close>

fun pushPartials :: "nat \<Rightarrow> ClassAnalysis list \<Rightarrow> store \<Rightarrow> store" where
  "pushPartials currentChunk [] h = h"
| "pushPartials currentChunk (partialClass # rest) h =
     (case alloc (ClassObj partialClass) h of
        (a, h1) \<Rightarrow> pushPartials currentChunk rest (push currentChunk a h1))"

fun classLoopH :: "nat \<Rightarrow> nat list \<Rightarrow> nat \<Rightarrow> nat \<Rightarrow> nat \<Rightarrow> store \<Rightarrow> store" where
  "classLoopH maxChunkSize [] classChunks currentChunk currentSize h =
     (if length (elements h currentChunk) > 0 then push classChunks currentChunk h else h)"
| "classLoopH maxChunkSize (cls # rest) classChunks currentChunk currentSize h =
     (case readObj h cls of
        Some (ClassObj c) \<Rightarrow>
          (let clsTokens = estimateTokens (stringifyClass c) in
           if clsTokens > maxChunkSize then
             classLoopH maxChunkSize rest classChunks currentChunk currentSize
               (pushPartials currentChunk
                  (partialClasses c (methodLoop maxChunkSize (cls_methods c) [] [] 0)) h)
           else if currentSize + clsTokens > maxChunkSize
                   \<and> length (elements h currentChunk) > 0 then
             (case alloc (ArrayObj (elements h currentChunk)) h of
                (copy, h1) \<Rightarrow>
                  (case alloc (ArrayObj []) (push classChunks copy h1) of
                     (newChunk, h2) \<Rightarrow>
                       classLoopH maxChunkSize rest classChunks newChunk clsTokens
                         (push newChunk cls h2)))
           else
             classLoopH maxChunkSize rest classChunks currentChunk
               (currentSize + clsTokens) (push currentChunk cls h))
      | _ \<Rightarrow> classLoopH maxChunkSize rest classChunks currentChunk currentSize h)"

text \<open>
  \<open>chunks.push(...xs.map(x => ({ ...context, ... })))\<close>: a new object for each element,
  each pushed to \<open>chunks\<close>.
\<close>

fun pushMapped :: "nat \<Rightarrow> (nat \<Rightarrow> obj) \<Rightarrow> nat list \<Rightarrow> store \<Rightarrow> store" where
  "pushMapped chunks mk [] h = h"
| "pushMapped chunks mk (x # xs) h =
     (case alloc (mk x) h of (a, h1) \<Rightarrow> pushMapped chunks mk xs (push chunks a h1))"

definition functionPassH :: "nat \<Rightarrow> nat \<Rightarrow> nat \<Rightarrow> nat \<Rightarrow> store \<Rightarrow> store" where
  "functionPassH maxChunkSize chunks fa ca h =
     (case alloc (ArrayObj []) h of
        (functionChunks, h1) \<Rightarrow>
          (case alloc (ArrayObj []) h1 of
             (currentChunk, h2) \<Rightarrow>
               (let h3 = functionLoopH maxChunkSize (elements h2 fa) functionChunks
                           currentChunk 0 h2
                in pushMapped chunks (\<lambda>funcs. ContextObj funcs ca)
                     (elements h3 functionChunks) h3)))"

definition classPassH :: "nat \<Rightarrow> nat \<Rightarrow> nat \<Rightarrow> nat \<Rightarrow> store \<Rightarrow> store" where
  "classPassH maxChunkSize chunks fa ca h =
     (case alloc (ArrayObj []) h of
        (classChunks, h1) \<Rightarrow>
          (case alloc (ArrayObj []) h1 of
             (currentChunk, h2) \<Rightarrow>
               (let h3 = classLoopH maxChunkSize (elements h2 ca) classChunks
                           currentChunk 0 h2
                in pushMapped chunks (\<lambda>clss. ContextObj fa clss)
                     (elements h3 classChunks) h3)))"

text \<open>
  The call: the address of the array returned, and the store after the call. For a
  context that is not an object with the two arrays no pass runs.
\<close>

definition chunkCodebaseH :: "nat \<Rightarrow> nat \<Rightarrow> store \<Rightarrow> nat \<times> store" where
  "chunkCodebaseH context maxChunkSize h =
     (case alloc (ArrayObj []) h of
        (chunks, h1) \<Rightarrow>
          (let h2 = (case readObj h1 context of
                       Some (ContextObj fa ca) \<Rightarrow>
                         classPassH maxChunkSize chunks fa ca
                           (functionPassH maxChunkSize chunks fa ca h1)
                     | _ \<Rightarrow> h1)
           in if length (elements h2 chunks) > 0 then (chunks, h2)
              else alloc (ArrayObj [context]) h2))"

text \<open>
  The objects below address \<open>n\<close> are the same in \<open>h'\<close> as in \<open>h\<close>, and \<open>h'\<close> has at
  least the objects of \<open>h\<close>.
\<close>

definition unchangedBelow :: "nat \<Rightarrow> store \<Rightarrow> store \<Rightarrow> bool" where
  "unchangedBelow n h h' \<longleftrightarrow> n \<le> length h \<and> length h \<le> length h' \<and> take n h' = take n h"

text \<open>Reading a result back from the store, as far as the addresses hold what they should.\<close>

definition functionsAt :: "store \<Rightarrow> nat \<Rightarrow> FunctionAnalysis list" where
  "functionsAt h a =
     concat (map (\<lambda>x. case readObj h x of Some (FunctionObj f) \<Rightarrow> [f] | _ \<Rightarrow> [])
                 (elements h a))"

definition classesAt :: "store \<Rightarrow> nat \<Rightarrow> ClassAnalysis list" where
  "classesAt h a =
     concat (map (\<lambda>x. case readObj h x of Some (ClassObj c) \<Rightarrow> [c] | _ \<Rightarrow> [])
                 (elements h a))"

definition resultsAt :: "store \<Rightarrow> nat \<Rightarrow> AnalysisResult list" where
  "resultsAt h a =
     concat (map (\<lambda>x. case readObj h x of
                        Some (ContextObj fa ca) \<Rightarrow>
                          [\<lparr>ar_functions = functionsAt h fa, ar_classes = classesAt h ca\<rparr>]
                      | _ \<Rightarrow> [])
                 (elements h a))"

section \<open>Notions used to state the properties\<close>

text \<open>
  A function or class is oversized when its own estimate exceeds the limit: the test
  \<open>funcTokens > maxChunkSize\<close>, \<open>clsTokens > maxChunkSize\<close> of the two loops.
\<close>

definition oversizedFunction :: "nat \<Rightarrow> FunctionAnalysis \<Rightarrow> bool" where
  "oversizedFunction maxChunkSize func \<longleftrightarrow>
     estimateTokens (stringifyFunction func) > maxChunkSize"

definition oversizedClass :: "nat \<Rightarrow> ClassAnalysis \<Rightarrow> bool" where
  "oversizedClass maxChunkSize cls \<longleftrightarrow>
     estimateTokens (stringifyClass cls) > maxChunkSize"

text \<open>What a chunk holds in place of an entity of the input.\<close>

definition emittedFunction :: "nat \<Rightarrow> FunctionAnalysis \<Rightarrow> FunctionAnalysis" where
  "emittedFunction maxChunkSize func =
     (if oversizedFunction maxChunkSize func
      then func\<lparr>fn_body := Some truncatedBody\<rparr> else func)"

definition emittedClass :: "nat \<Rightarrow> ClassAnalysis \<Rightarrow> ClassAnalysis list" where
  "emittedClass maxChunkSize cls =
     (if oversizedClass maxChunkSize cls
      then partialClasses cls (methodLoop maxChunkSize (cls_methods cls) [] [] 0)
      else [cls])"

text \<open>What an entity adds to \<open>currentSize\<close>: nothing when it is oversized.\<close>

definition countedFunction :: "nat \<Rightarrow> FunctionAnalysis \<Rightarrow> nat" where
  "countedFunction maxChunkSize func =
     (if oversizedFunction maxChunkSize func then 0
      else estimateTokens (stringifyFunction func))"

definition countedClass :: "nat \<Rightarrow> ClassAnalysis \<Rightarrow> nat" where
  "countedClass maxChunkSize cls =
     (if oversizedClass maxChunkSize cls then 0
      else estimateTokens (stringifyClass cls))"

text \<open>
  Runs of entities as a greedy packing leaves them, for the estimate \<open>t\<close> of an entity
  and \<open>c\<close>, what it adds to the running total: every run after the first starts with
  an entity that fits the limit by itself and that did not fit on top of the total of
  the run before it.
\<close>

fun greedyRuns :: "nat \<Rightarrow> ('a \<Rightarrow> nat) \<Rightarrow> ('a \<Rightarrow> nat) \<Rightarrow> 'a list list \<Rightarrow> bool" where
  "greedyRuns m t c (g # (x # xs) # gs) \<longleftrightarrow>
     t x \<le> m \<and> m < sum_list (map c g) + t x \<and> greedyRuns m t c ((x # xs) # gs)"
| "greedyRuns m t c (g # [] # gs) \<longleftrightarrow> False"
| "greedyRuns m t c gs \<longleftrightarrow> True"

definition functionTokens :: "FunctionAnalysis \<Rightarrow> nat" where
  "functionTokens func = estimateTokens (stringifyFunction func)"

definition classTokens :: "ClassAnalysis \<Rightarrow> nat" where
  "classTokens cls = estimateTokens (stringifyClass cls)"

text \<open>The method groups of a large class: \<open>methodChunks\<close> after the inner loop.\<close>

definition methodChunksOf :: "nat \<Rightarrow> ClassAnalysis \<Rightarrow> ClassMethod list list" where
  "methodChunksOf maxChunkSize cls = methodLoop maxChunkSize (cls_methods cls) [] [] 0"

definition methodTokens :: "ClassMethod \<Rightarrow> nat" where
  "methodTokens method = estimateTokens (stringifyMethod method)"

text \<open>
  A path below \<open>dirPath\<close> none of whose components, from \<open>dirPath\<close> down, bears an
  ignored name.
\<close>

definition keptPath :: "string \<Rightarrow> string \<Rightarrow> bool" where
  "keptPath dirPath p \<longleftrightarrow>
     (\<exists>names. names \<noteq> [] \<and> p = foldl path_join dirPath names
                \<and> set names \<inter> IGNORED_DIRS = {})"

text \<open>The path \<open>analyzeProject\<close> works on: the input trimmed, then normalized.\<close>

definition resolvedPathOf :: "world \<Rightarrow> string \<Rightarrow> string" where
  "resolvedPathOf w folder = path_normalize w (trim folder)"

text \<open>
  What one file adds to the aggregate and to the error log: the outcome of the \<open>try\<close>
  body of \<open>analyzeFiles\<close> for that file alone.
\<close>

definition fileOutcome :: "world \<Rightarrow> string \<Rightarrow> (string + ParseOutput) option" where
  "fileOutcome w file =
     (case getParserForFile file of
        None \<Rightarrow> None
      | Some parser \<Rightarrow>
          (case readFile w file of
             Inl err \<Rightarrow> Some (Inl err)
           | Inr code \<Rightarrow> Some (parseFile w parser file)))"

definition fileFunctions :: "world \<Rightarrow> string \<Rightarrow> FunctionAnalysis list" where
  "fileFunctions w file =
     (case fileOutcome w file of Some (Inr result) \<Rightarrow> orEmpty (po_functions result) | _ \<Rightarrow> [])"

definition fileClasses :: "world \<Rightarrow> string \<Rightarrow> ClassAnalysis list" where
  "fileClasses w file =
     (case fileOutcome w file of Some (Inr result) \<Rightarrow> orEmpty (po_classes result) | _ \<Rightarrow> [])"

definition fileFailure :: "world \<Rightarrow> string \<Rightarrow> (string \<times> string) list" where
  "fileFailure w file =
     (case fileOutcome w file of Some (Inl err) \<Rightarrow> [(file, err)] | _ \<Rightarrow> [])"

section \<open>Example inputs\<close>

definition exampleFunction :: FunctionAnalysis where
  "exampleFunction =
     \<lparr>fn_name = ''foo'', fn_type = None,
      fn_parameters = [\<lparr>param_name = ''a'', param_type = ''any''\<rparr>,
                       \<lparr>param_name = ''b'', param_type = ''any''\<rparr>],
      fn_returnType = ''any'', fn_body = Some ''{ return a + b; }'',
      fn_codeSnippet = None, fn_documentation = [],
      fn_location = \<lparr>loc_file = ''foo.ts'', startLine = 1, endLine = 3\<rparr>\<rparr>"

definition exampleMethod :: "string \<Rightarrow> ClassMethod" where
  "exampleMethod nm =
     \<lparr>m_name = nm, m_type = None, m_parameters = [], m_returnType = ''void'',
      m_body = Some ''{}'', m_codeSnippet = None, m_documentation = [],
      m_location = None\<rparr>"

definition exampleClass :: ClassAnalysis where
  "exampleClass =
     \<lparr>cls_name = ''Bar'', cls_type = None,
      cls_methods = [exampleMethod ''a'', exampleMethod ''b'', exampleMethod ''c''],
      cls_properties = [], cls_documentation = [],
      cls_location = \<lparr>loc_file = ''bar.ts'', startLine = 1, endLine = 9\<rparr>,
      cls_codeSnippet = None, cls_note = None\<rparr>"

definition functionsOnly :: AnalysisResult where
  "functionsOnly = \<lparr>ar_functions = [exampleFunction], ar_classes = []\<rparr>"

definition functionAndClass :: AnalysisResult where
  "functionAndClass = \<lparr>ar_functions = [exampleFunction], ar_classes = [exampleClass]\<rparr>"

definition exampleTree :: fs_node where
  "exampleTree =
     Dir [(''foo.ts'', File), (''bar.ts'', File), (''readme.md'', File), (''App.tsx'', File),
          (''dist'', File), (''node_modules'', Dir [(''dep.js'', File)])]"

definition appFunction :: FunctionAnalysis where
  "appFunction = exampleFunction\<lparr>fn_name := ''App''\<rparr>"

text \<open>
  A world with the example tree at \<open>/p\<close> and a regular file at \<open>/f\<close>. Every file can
  be read; \<open>foo.ts\<close> parses to the example function, \<open>App.tsx\<close> would parse to a
  function named \<open>App\<close>, and \<open>bar.ts\<close> fails to parse when \<open>broken\<close> is set and is
  empty otherwise.
\<close>

definition exampleWorld :: "bool \<Rightarrow> world" where
  "exampleWorld broken =
     \<lparr>path_normalize = (\<lambda>p. p),
      lookup = (\<lambda>p. if p = ''/p'' then Some exampleTree
                     else if p = ''/f'' then Some File else None),
      readFile = (\<lambda>file. Inr ''source text''),
      parseFile = (\<lambda>parser file.
        if file = ''/p/foo.ts'' then
          Inr \<lparr>po_functions = Some [exampleFunction], po_classes = Some []\<rparr>
        else if file = ''/p/App.tsx'' then
          Inr \<lparr>po_functions = Some [appFunction], po_classes = Some []\<rparr>
        else if file = ''/p/bar.ts'' \<and> broken then Inl ''Unexpected token''
        else Inr \<lparr>po_functions = Some [], po_classes = Some []\<rparr>)\<rparr>"

text \<open>The same world, except that \<open>App.tsx\<close> and \<open>readme.md\<close> can be neither read nor parsed.\<close>

definition otherWorld :: world where
  "otherWorld =
     (exampleWorld False)
       \<lparr>readFile := (\<lambda>file. if file = ''/p/App.tsx'' \<or> file = ''/p/readme.md''
                            then Inl ''EACCES'' else readFile (exampleWorld False) file),
        parseFile := (\<lambda>parser file. if file = ''/p/App.tsx'' \<or> file = ''/p/readme.md''
                            then Inl ''Unexpected token''
                            else parseFile (exampleWorld False) parser file)\<rparr>"

definition fooOnly :: AnalysisResult where
  "fooOnly = \<lparr>ar_functions = [exampleFunction], ar_classes = []\<rparr>"

text \<open>The example input in a store: the context at address 0.\<close>

definition exampleStore :: store where
  "exampleStore =
     [ContextObj 1 2, ArrayObj [3], ArrayObj [4],
      FunctionObj exampleFunction, ClassObj exampleClass]"

section \<open>Evaluating the examples\<close>

lemmas json_defs = obj_def arr_def field_def quote_def optField_def stringifyParameter_def
  stringifyLocation_def stringifyProperty_def escapeChar_def isControl_def

lemma exampleFunction_tokens: "estimateTokens (stringifyFunction exampleFunction) = 51"
  by (simp add: estimateTokens_def stringifyFunction_def exampleFunction_def json_defs)

lemma exampleMethod_tokens:
  "estimateTokens (stringifyMethod (exampleMethod ''a'')) = 20"
  "estimateTokens (stringifyMethod (exampleMethod ''b'')) = 20"
  "estimateTokens (stringifyMethod (exampleMethod ''c'')) = 20"
  by (simp_all add: estimateTokens_def stringifyMethod_def exampleMethod_def json_defs)

lemma exampleClass_tokens: "estimateTokens (stringifyClass exampleClass) = 89"
  by (simp add: estimateTokens_def stringifyClass_def stringifyMethod_def exampleClass_def
      exampleMethod_def json_defs)

lemma functionsOnly_tokens: "estimateTokens (stringifyResult functionsOnly) = 58"
  by (simp add: estimateTokens_def stringifyResult_def functionsOnly_def stringifyFunction_def
      exampleFunction_def json_defs)

lemma exampleClass_methods:
  "cls_methods exampleClass = [exampleMethod ''a'', exampleMethod ''b'', exampleMethod ''c'']"
  by (simp add: exampleClass_def)

section \<open>The loops of the chunker\<close>

lemma functionLoop_concat:
  "concat (functionLoop m fs chunks cur sz) = concat chunks @ cur @ map (emittedFunction m) fs"
  by (induction fs arbitrary: chunks cur sz)
     (simp_all add: Let_def emittedFunction_def oversizedFunction_def)

lemma functionLoop_empty_iff:
  "functionLoop m fs chunks cur sz = [] \<longleftrightarrow> chunks = [] \<and> cur = [] \<and> fs = []"
  by (induction fs arbitrary: chunks cur sz) (simp_all add: Let_def)

lemma methodLoop_concat:
  "concat (methodLoop m ms chunks cur sz) = concat chunks @ cur @ ms"
  by (induction ms arbitrary: chunks cur sz) (simp_all add: Let_def)

lemma classLoop_concat:
  "concat (classLoop m cs chunks cur sz)
     = concat chunks @ cur @ concat (map (emittedClass m) cs)"
  by (induction cs arbitrary: chunks cur sz)
     (simp_all add: Let_def emittedClass_def oversizedClass_def)

lemma classLoop_empty_iff:
  "classLoop m cs chunks cur sz = []
     \<longleftrightarrow> chunks = [] \<and> cur = [] \<and> concat (map (emittedClass m) cs) = []"
  by (induction cs arbitrary: chunks cur sz)
     (simp_all add: Let_def emittedClass_def oversizedClass_def)

lemma length_partialClasses: "length (partialClasses cls gs) = length gs"
  by (simp add: partialClasses_def)

lemma nth_partialClasses:
  "i < length gs \<Longrightarrow>
     partialClasses cls gs ! i
       = cls\<lparr>cls_methods := gs ! i, cls_note := Some (partNote i (length gs))\<rparr>"
  by (simp add: partialClasses_def nth_enumerate_eq)

lemma methods_partialClasses: "map cls_methods (partialClasses cls gs) = gs"
  by (rule nth_equalityI) (simp_all add: length_partialClasses nth_partialClasses)

lemma emittedClass_methods: "concat (map cls_methods (emittedClass m cls)) = cls_methods cls"
  by (simp add: emittedClass_def methods_partialClasses methodLoop_concat)

text \<open>
  The running total never exceeds the limit, and a chunk is closed only with a total
  within the limit: the invariant of the function loop, over the runs of input functions
  (\<open>gs\<close> closed, \<open>g\<close> running) that the chunks come from.
\<close>

lemma functionLoop_groups:
  assumes "chunks = map (map (emittedFunction m)) gs"
    and "cur = map (emittedFunction m) g"
    and "sz = sum_list (map (countedFunction m) g)"
    and "sz \<le> m"
    and "\<forall>x\<in>set gs. sum_list (map (countedFunction m) x) \<le> m"
  shows "\<exists>gs'. concat gs' = concat gs @ g @ fs
           \<and> functionLoop m fs chunks cur sz = map (map (emittedFunction m)) gs'
           \<and> (\<forall>x\<in>set gs'. sum_list (map (countedFunction m) x) \<le> m)"
  using assms
proof (induction fs arbitrary: chunks cur sz gs g)
  case Nil
  show ?case
  proof (cases "g = []")
    case True
    with Nil show ?thesis by (intro exI[of _ gs]) simp
  next
    case False
    with Nil show ?thesis by (intro exI[of _ "gs @ [g]"]) simp
  qed
next
  case (Cons f fs)
  let ?t = "estimateTokens (stringifyFunction f)"
  consider (big) "?t > m"
    | (flush) "\<not> ?t > m" "sz + ?t > m" "g \<noteq> []"
    | (keep) "\<not> ?t > m" "\<not> (sz + ?t > m \<and> g \<noteq> [])"
    by blast
  then show ?case
  proof cases
    case big
    have "\<exists>gs'. concat gs' = concat gs @ (g @ [f]) @ fs
           \<and> functionLoop m fs chunks (cur @ [f\<lparr>fn_body := Some truncatedBody\<rparr>]) sz
               = map (map (emittedFunction m)) gs'
           \<and> (\<forall>x\<in>set gs'. sum_list (map (countedFunction m) x) \<le> m)"
      using Cons.prems big
      by (intro Cons.IH)
         (simp_all add: emittedFunction_def countedFunction_def oversizedFunction_def)
    with big show ?thesis by (simp add: Let_def)
  next
    case flush
    have "\<exists>gs'. concat gs' = concat (gs @ [g]) @ [f] @ fs
           \<and> functionLoop m fs (chunks @ [cur]) [f] ?t = map (map (emittedFunction m)) gs'
           \<and> (\<forall>x\<in>set gs'. sum_list (map (countedFunction m) x) \<le> m)"
      using Cons.prems flush
      by (intro Cons.IH)
         (simp_all add: emittedFunction_def countedFunction_def oversizedFunction_def)
    with flush Cons.prems(2) show ?thesis by (simp add: Let_def)
  next
    case keep
    have le: "sz + ?t \<le> m"
    proof (cases "g = []")
      case True
      with Cons.prems(3) keep(1) show ?thesis by simp
    next
      case False
      with keep(2) show ?thesis by simp
    qed
    have "\<exists>gs'. concat gs' = concat gs @ (g @ [f]) @ fs
           \<and> functionLoop m fs chunks (cur @ [f]) (sz + ?t) = map (map (emittedFunction m)) gs'
           \<and> (\<forall>x\<in>set gs'. sum_list (map (countedFunction m) x) \<le> m)"
      using Cons.prems keep le
      by (intro Cons.IH)
         (simp_all add: emittedFunction_def countedFunction_def oversizedFunction_def)
    with keep Cons.prems(2) show ?thesis by (auto simp add: Let_def)
  qed
qed

lemma classLoop_groups:
  assumes "chunks = map (\<lambda>x. concat (map (emittedClass m) x)) gs"
    and "cur = concat (map (emittedClass m) g)"
    and "sz = sum_list (map (countedClass m) g)"
    and "sz \<le> m"
    and "cur = [] \<longrightarrow> sz = 0"
    and "\<forall>x\<in>set gs. sum_list (map (countedClass m) x) \<le> m"
  shows "\<exists>gs' dropped. concat gs' @ dropped = concat gs @ g @ cs
           \<and> concat (map (emittedClass m) dropped) = []
           \<and> classLoop m cs chunks cur sz = map (\<lambda>x. concat (map (emittedClass m) x)) gs'
           \<and> (\<forall>x\<in>set gs'. sum_list (map (countedClass m) x) \<le> m)"
  using assms
proof (induction cs arbitrary: chunks cur sz gs g)
  case Nil
  show ?case
  proof (cases "cur = []")
    case True
    with Nil show ?thesis by (intro exI[of _ gs] exI[of _ g]) simp
  next
    case False
    with Nil show ?thesis by (intro exI[of _ "gs @ [g]"] exI[of _ "[]"]) simp
  qed
next
  case (Cons c cs)
  let ?t = "estimateTokens (stringifyClass c)"
  consider (big) "?t > m"
    | (flush) "\<not> ?t > m" "sz + ?t > m" "cur \<noteq> []"
    | (keep) "\<not> ?t > m" "\<not> (sz + ?t > m \<and> cur \<noteq> [])"
    by blast
  then show ?case
  proof cases
    case big
    have "\<exists>gs' dropped. concat gs' @ dropped = concat gs @ (g @ [c]) @ cs
           \<and> concat (map (emittedClass m) dropped) = []
           \<and> classLoop m cs chunks
                 (cur @ partialClasses c (methodLoop m (cls_methods c) [] [] 0)) sz
               = map (\<lambda>x. concat (map (emittedClass m) x)) gs'
           \<and> (\<forall>x\<in>set gs'. sum_list (map (countedClass m) x) \<le> m)"
      using Cons.prems big
      by (intro Cons.IH) (simp_all add: emittedClass_def countedClass_def oversizedClass_def)
    with big show ?thesis by (simp add: Let_def)
  next
    case flush
    have "\<exists>gs' dropped. concat gs' @ dropped = concat (gs @ [g]) @ [c] @ cs
           \<and> concat (map (emittedClass m) dropped) = []
           \<and> classLoop m cs (chunks @ [cur]) [c] ?t
               = map (\<lambda>x. concat (map (emittedClass m) x)) gs'
           \<and> (\<forall>x\<in>set gs'. sum_list (map (countedClass m) x) \<le> m)"
      using Cons.prems flush
      by (intro Cons.IH) (simp_all add: emittedClass_def countedClass_def oversizedClass_def)
    with flush show ?thesis by (simp add: Let_def)
  next
    case keep
    have le: "sz + ?t \<le> m"
    proof (cases "cur = []")
      case True
      with Cons.prems(5) keep(1) show ?thesis by simp
    next
      case False
      with keep(2) show ?thesis by simp
    qed
    have "\<exists>gs' dropped. concat gs' @ dropped = concat gs @ (g @ [c]) @ cs
           \<and> concat (map (emittedClass m) dropped) = []
           \<and> classLoop m cs chunks (cur @ [c]) (sz + ?t)
               = map (\<lambda>x. concat (map (emittedClass m) x)) gs'
           \<and> (\<forall>x\<in>set gs'. sum_list (map (countedClass m) x) \<le> m)"
      using Cons.prems keep le
      by (intro Cons.IH) (simp_all add: emittedClass_def countedClass_def oversizedClass_def)
    with keep show ?thesis by (auto simp add: Let_def)
  qed
qed

lemma methodLoop_groups:
  assumes "\<forall>method\<in>set ms. methodTokens method \<le> m"
    and "sz = sum_list (map methodTokens cur)"
    and "sz \<le> m"
    and "\<forall>g\<in>set chunks. g \<noteq> [] \<and> sum_list (map methodTokens g) \<le> m"
  shows "\<forall>g\<in>set (methodLoop m ms chunks cur sz). g \<noteq> [] \<and> sum_list (map methodTokens g) \<le> m"
  using assms
proof (induction ms arbitrary: chunks cur sz)
  case Nil
  then show ?case by simp
next
  case (Cons mth ms)
  let ?t = "estimateTokens (stringifyMethod mth)"
  have t: "?t \<le> m"
    using Cons.prems(1) by (simp add: methodTokens_def)
  show ?case
  proof (cases "sz + ?t > m")
    case True
    with t Cons.prems(2) have "cur \<noteq> []" by auto
    with Cons.prems t have
      "\<forall>g\<in>set (methodLoop m ms (chunks @ [cur]) [mth] ?t).
          g \<noteq> [] \<and> sum_list (map methodTokens g) \<le> m"
      by (intro Cons.IH) (simp_all add: methodTokens_def)
    with True show ?thesis by (simp add: Let_def)
  next
    case False
    with Cons.prems have
      "\<forall>g\<in>set (methodLoop m ms chunks (cur @ [mth]) (sz + ?t)).
          g \<noteq> [] \<and> sum_list (map methodTokens g) \<le> m"
      by (intro Cons.IH) (simp_all add: methodTokens_def)
    with False show ?thesis by (simp add: Let_def)
  qed
qed

lemma sum_list_concat_le:
  "\<forall>g\<in>set gs. sum_list (map f g) \<le> (m::nat) \<Longrightarrow>
     sum_list (map f (concat gs)) \<le> length gs * m"
  by (induction gs) (simp_all add: add_mono)

section \<open>The runs the chunks come from\<close>

lemma greedyRuns_snoc:
  "greedyRuns m t c (gs @ [g, x # xs])
     \<longleftrightarrow> greedyRuns m t c (gs @ [g]) \<and> t x \<le> m \<and> m < sum_list (map c g) + t x"
proof (induction gs)
  case Nil
  show ?case by simp
next
  case (Cons a gs)
  show ?case
  proof (cases gs)
    case Nil
    then show ?thesis by (cases g) auto
  next
    case (Cons b gs')
    with Cons.IH show ?thesis by (cases b) auto
  qed
qed

lemma greedyRuns_last:
  "g \<noteq> [] \<Longrightarrow> greedyRuns m t c (gs @ [g @ ys]) \<longleftrightarrow> greedyRuns m t c (gs @ [g])"
proof (induction gs)
  case Nil
  show ?case by simp
next
  case (Cons a gs)
  show ?case
  proof (cases gs)
    case Nil
    with Cons.prems show ?thesis by (cases g) auto
  next
    case (Cons b gs')
    with Cons.IH Cons.prems show ?thesis by (cases b) auto
  qed
qed

lemma greedyRuns_extend:
  assumes "gs = [] \<or> g \<noteq> []" and "greedyRuns m t c (gs @ [g])"
  shows "greedyRuns m t c (gs @ [g @ [x]])"
proof (cases "g = []")
  case True
  with assms(1) show ?thesis by simp
next
  case False
  with assms(2) show ?thesis by (simp add: greedyRuns_last)
qed

lemma emitted_counted_big:
  assumes "m < estimateTokens (stringifyFunction f)"
  shows "emittedFunction m f = f\<lparr>fn_body := Some truncatedBody\<rparr>" and "countedFunction m f = 0"
  using assms by (simp_all add: emittedFunction_def countedFunction_def oversizedFunction_def)

lemma emitted_counted_fit:
  assumes "\<not> m < estimateTokens (stringifyFunction f)"
  shows "emittedFunction m f = f"
    and "countedFunction m f = estimateTokens (stringifyFunction f)"
  using assms by (simp_all add: emittedFunction_def countedFunction_def oversizedFunction_def)

lemma emittedClass_counted_big:
  assumes "m < estimateTokens (stringifyClass c)"
  shows "emittedClass m c = partialClasses c (methodLoop m (cls_methods c) [] [] 0)"
    and "countedClass m c = 0"
  using assms by (simp_all add: emittedClass_def countedClass_def oversizedClass_def)

lemma emittedClass_counted_fit:
  assumes "\<not> m < estimateTokens (stringifyClass c)"
  shows "emittedClass m c = [c]" and "countedClass m c = estimateTokens (stringifyClass c)"
  using assms by (simp_all add: emittedClass_def countedClass_def oversizedClass_def)

text \<open>
  The invariant of the function loop once more, now with the rule by which a chunk is
  closed: the chunks are the images of the greedy runs of the input.
\<close>

lemma functionLoop_runs:
  assumes "chunks = map (map (emittedFunction m)) gs"
    and "cur = map (emittedFunction m) g"
    and "sz = sum_list (map (countedFunction m) g)"
    and "sz \<le> m"
    and "\<forall>x\<in>set gs. sum_list (map (countedFunction m) x) \<le> m"
    and "[] \<notin> set gs"
    and "gs = [] \<or> g \<noteq> []"
    and "greedyRuns m functionTokens (countedFunction m) (gs @ [g])"
  shows "\<exists>gs'. concat gs' = concat gs @ g @ fs
           \<and> functionLoop m fs chunks cur sz = map (map (emittedFunction m)) gs'
           \<and> (\<forall>x\<in>set gs'. sum_list (map (countedFunction m) x) \<le> m)
           \<and> [] \<notin> set gs'
           \<and> greedyRuns m functionTokens (countedFunction m) gs'"
  using assms
proof (induction fs arbitrary: chunks cur sz gs g)
  case Nil
  show ?case
  proof (cases "g = []")
    case True
    with Nil have "gs = []" by simp
    with True Nil show ?thesis by (intro exI [of _ "[]"]) simp
  next
    case False
    with Nil show ?thesis by (intro exI [of _ "gs @ [g]"]) simp
  qed
next
  case (Cons f fs)
  let ?t = "estimateTokens (stringifyFunction f)"
  consider (big) "?t > m"
    | (flush) "\<not> ?t > m" "sz + ?t > m" "g \<noteq> []"
    | (keep) "\<not> ?t > m" "\<not> (sz + ?t > m \<and> g \<noteq> [])"
    by blast
  then show ?case
  proof cases
    case big
    have runs: "greedyRuns m functionTokens (countedFunction m) (gs @ [g @ [f]])"
      using Cons.prems(7,8) by (rule greedyRuns_extend)
    have "\<exists>gs'. concat gs' = concat gs @ (g @ [f]) @ fs
           \<and> functionLoop m fs chunks (cur @ [f\<lparr>fn_body := Some truncatedBody\<rparr>]) sz
               = map (map (emittedFunction m)) gs'
           \<and> (\<forall>x\<in>set gs'. sum_list (map (countedFunction m) x) \<le> m)
           \<and> [] \<notin> set gs'
           \<and> greedyRuns m functionTokens (countedFunction m) gs'"
      using Cons.prems(1-6) runs
      by (intro Cons.IH) (simp_all add: emitted_counted_big [OF big])
    with big show ?thesis by (simp add: Let_def)
  next
    case flush
    have t: "functionTokens f \<le> m"
      "m < sum_list (map (countedFunction m) g) + functionTokens f"
      using flush(1,2) Cons.prems(3) by (simp_all add: functionTokens_def)
    have "greedyRuns m functionTokens (countedFunction m) (gs @ [g, [f]])"
      using Cons.prems(8) t by (simp only: greedyRuns_snoc simp_thms)
    then have runs: "greedyRuns m functionTokens (countedFunction m) ((gs @ [g]) @ [[f]])"
      by simp
    have "\<exists>gs'. concat gs' = concat (gs @ [g]) @ [f] @ fs
           \<and> functionLoop m fs (chunks @ [cur]) [f] ?t = map (map (emittedFunction m)) gs'
           \<and> (\<forall>x\<in>set gs'. sum_list (map (countedFunction m) x) \<le> m)
           \<and> [] \<notin> set gs'
           \<and> greedyRuns m functionTokens (countedFunction m) gs'"
      using Cons.prems(1-6) flush(1,3) runs
      by (intro Cons.IH) (simp_all add: emitted_counted_fit [OF flush(1)])
    with flush Cons.prems(2) show ?thesis by (simp add: Let_def)
  next
    case keep
    have le: "sz + ?t \<le> m"
    proof (cases "g = []")
      case True
      with Cons.prems(3) keep(1) show ?thesis by simp
    next
      case False
      with keep(2) show ?thesis by simp
    qed
    have runs: "greedyRuns m functionTokens (countedFunction m) (gs @ [g @ [f]])"
      using Cons.prems(7,8) by (rule greedyRuns_extend)
    have "\<exists>gs'. concat gs' = concat gs @ (g @ [f]) @ fs
           \<and> functionLoop m fs chunks (cur @ [f]) (sz + ?t) = map (map (emittedFunction m)) gs'
           \<and> (\<forall>x\<in>set gs'. sum_list (map (countedFunction m) x) \<le> m)
           \<and> [] \<notin> set gs'
           \<and> greedyRuns m functionTokens (countedFunction m) gs'"
      using Cons.prems(1-6) le runs
      by (intro Cons.IH) (simp_all add: emitted_counted_fit [OF keep(1)])
    with keep Cons.prems(2) show ?thesis by (auto simp add: Let_def)
  qed
qed

lemma classLoop_runs:
  assumes "chunks = map (\<lambda>x. concat (map (emittedClass m) x)) gs"
    and "cur = concat (map (emittedClass m) g)"
    and "sz = sum_list (map (countedClass m) g)"
    and "sz \<le> m"
    and "cur = [] \<longrightarrow> sz = 0"
    and "\<forall>x\<in>set gs. concat (map (emittedClass m) x) \<noteq> []
                    \<and> sum_list (map (countedClass m) x) \<le> m"
    and "gs = [] \<or> cur \<noteq> []"
    and "greedyRuns m classTokens (countedClass m) (gs @ [g])"
  shows "\<exists>gs' dropped. concat gs' @ dropped = concat gs @ g @ cs
           \<and> concat (map (emittedClass m) dropped) = []
           \<and> classLoop m cs chunks cur sz = map (\<lambda>x. concat (map (emittedClass m) x)) gs'
           \<and> (\<forall>x\<in>set gs'. concat (map (emittedClass m) x) \<noteq> []
                          \<and> sum_list (map (countedClass m) x) \<le> m)
           \<and> greedyRuns m classTokens (countedClass m) gs'"
  using assms
proof (induction cs arbitrary: chunks cur sz gs g)
  case Nil
  show ?case
  proof (cases "cur = []")
    case True
    with Nil have "gs = []" by simp
    with True Nil show ?thesis by (intro exI [of _ "[]"] exI [of _ g]) simp
  next
    case False
    with Nil show ?thesis by (intro exI [of _ "gs @ [g]"] exI [of _ "[]"]) simp
  qed
next
  case (Cons c cs)
  let ?t = "estimateTokens (stringifyClass c)"
  have g: "gs = [] \<or> g \<noteq> []"
    using Cons.prems(2,7) by auto
  consider (big) "?t > m"
    | (flush) "\<not> ?t > m" "sz + ?t > m" "cur \<noteq> []"
    | (keep) "\<not> ?t > m" "\<not> (sz + ?t > m \<and> cur \<noteq> [])"
    by blast
  then show ?case
  proof cases
    case big
    have runs: "greedyRuns m classTokens (countedClass m) (gs @ [g @ [c]])"
      using g Cons.prems(8) by (rule greedyRuns_extend)
    have "\<exists>gs' dropped. concat gs' @ dropped = concat gs @ (g @ [c]) @ cs
           \<and> concat (map (emittedClass m) dropped) = []
           \<and> classLoop m cs chunks
                 (cur @ partialClasses c (methodLoop m (cls_methods c) [] [] 0)) sz
               = map (\<lambda>x. concat (map (emittedClass m) x)) gs'
           \<and> (\<forall>x\<in>set gs'. concat (map (emittedClass m) x) \<noteq> []
                          \<and> sum_list (map (countedClass m) x) \<le> m)
           \<and> greedyRuns m classTokens (countedClass m) gs'"
      using Cons.prems(1-7) runs
      by (intro Cons.IH) (auto simp add: emittedClass_counted_big [OF big])
    with big show ?thesis by (simp add: Let_def)
  next
    case flush
    have "g \<noteq> []" using flush(3) Cons.prems(2) by auto
    have t: "classTokens c \<le> m"
      "m < sum_list (map (countedClass m) g) + classTokens c"
      using flush(1,2) Cons.prems(3) by (simp_all add: classTokens_def)
    have "greedyRuns m classTokens (countedClass m) (gs @ [g, [c]])"
      using Cons.prems(8) t by (simp only: greedyRuns_snoc simp_thms)
    then have runs: "greedyRuns m classTokens (countedClass m) ((gs @ [g]) @ [[c]])"
      by simp
    have "\<exists>gs' dropped. concat gs' @ dropped = concat (gs @ [g]) @ [c] @ cs
           \<and> concat (map (emittedClass m) dropped) = []
           \<and> classLoop m cs (chunks @ [cur]) [c] ?t
               = map (\<lambda>x. concat (map (emittedClass m) x)) gs'
           \<and> (\<forall>x\<in>set gs'. concat (map (emittedClass m) x) \<noteq> []
                          \<and> sum_list (map (countedClass m) x) \<le> m)
           \<and> greedyRuns m classTokens (countedClass m) gs'"
      using Cons.prems(1-6) flush(1,3) runs
      by (intro Cons.IH) (auto simp add: emittedClass_counted_fit [OF flush(1)])
    with flush show ?thesis by (simp add: Let_def)
  next
    case keep
    have le: "sz + ?t \<le> m"
    proof (cases "cur = []")
      case True
      with Cons.prems(5) keep(1) show ?thesis by simp
    next
      case False
      with keep(2) show ?thesis by simp
    qed
    have runs: "greedyRuns m classTokens (countedClass m) (gs @ [g @ [c]])"
      using g Cons.prems(8) by (rule greedyRuns_extend)
    have "\<exists>gs' dropped. concat gs' @ dropped = concat gs @ (g @ [c]) @ cs
           \<and> concat (map (emittedClass m) dropped) = []
           \<and> classLoop m cs chunks (cur @ [c]) (sz + ?t)
               = map (\<lambda>x. concat (map (emittedClass m) x)) gs'
           \<and> (\<forall>x\<in>set gs'. concat (map (emittedClass m) x) \<noteq> []
                          \<and> sum_list (map (countedClass m) x) \<le> m)
           \<and> greedyRuns m classTokens (countedClass m) gs'"
      using Cons.prems(1-6) le runs
      by (intro Cons.IH) (auto simp add: emittedClass_counted_fit [OF keep(1)])
    with keep show ?thesis by (auto simp add: Let_def)
  qed
qed

section \<open>Properties of the chunker\<close>

text \<open>
  C2, as amended. Every chunk of the function pass holds what is emitted for a run of
  consecutive input functions, and the estimates of the functions of that run that are
  not individually oversized sum to at most \<open>maxChunkSize\<close>; the same holds for the
  chunks of the class pass and runs of input classes (classes for which nothing is
  emitted may trail the last run). This is the bound the running total enforces. It
  bounds the sum of the per-entity estimates, not the estimate of the serialized chunk.
\<close>

theorem chunk_running_total_bounded:
  "(\<exists>gs. concat gs = ar_functions ctx
         \<and> map ar_functions (functionPass ctx m) = map (map (emittedFunction m)) gs
         \<and> (\<forall>g\<in>set gs. sum_list (map (countedFunction m) g) \<le> m))
   \<and> (\<exists>gs dropped. concat gs @ dropped = ar_classes ctx
         \<and> concat (map (emittedClass m) dropped) = []
         \<and> map ar_classes (classPass ctx m) = map (\<lambda>g. concat (map (emittedClass m) g)) gs
         \<and> (\<forall>g\<in>set gs. sum_list (map (countedClass m) g) \<le> m))"
proof
  have "\<exists>gs'. concat gs' = concat [] @ [] @ ar_functions ctx
          \<and> functionLoop m (ar_functions ctx) [] [] 0 = map (map (emittedFunction m)) gs'
          \<and> (\<forall>x\<in>set gs'. sum_list (map (countedFunction m) x) \<le> m)"
    by (rule functionLoop_groups) simp_all
  then show "\<exists>gs. concat gs = ar_functions ctx
         \<and> map ar_functions (functionPass ctx m) = map (map (emittedFunction m)) gs
         \<and> (\<forall>g\<in>set gs. sum_list (map (countedFunction m) g) \<le> m)"
    by (simp add: functionPass_def comp_def)
next
  have "\<exists>gs' dropped. concat gs' @ dropped = concat [] @ [] @ ar_classes ctx
          \<and> concat (map (emittedClass m) dropped) = []
          \<and> classLoop m (ar_classes ctx) [] [] 0
              = map (\<lambda>x. concat (map (emittedClass m) x)) gs'
          \<and> (\<forall>x\<in>set gs'. sum_list (map (countedClass m) x) \<le> m)"
    by (rule classLoop_groups) simp_all
  then show "\<exists>gs dropped. concat gs @ dropped = ar_classes ctx
         \<and> concat (map (emittedClass m) dropped) = []
         \<and> map ar_classes (classPass ctx m) = map (\<lambda>g. concat (map (emittedClass m) g)) gs
         \<and> (\<forall>g\<in>set gs. sum_list (map (countedClass m) g) \<le> m)"
    by (simp add: classPass_def comp_def)
qed

theorem chunk_running_total_bounded_witness:
  "(\<exists>gs. concat gs = ar_functions functionAndClass
         \<and> map ar_functions (functionPass functionAndClass 51)
             = map (map (emittedFunction 51)) gs
         \<and> (\<forall>g\<in>set gs. sum_list (map (countedFunction 51) g) \<le> 51))
   \<and> (\<exists>gs dropped. concat gs @ dropped = ar_classes functionAndClass
         \<and> concat (map (emittedClass 51) dropped) = []
         \<and> map ar_classes (classPass functionAndClass 51)
             = map (\<lambda>g. concat (map (emittedClass 51) g)) gs
         \<and> (\<forall>g\<in>set gs. sum_list (map (countedClass 51) g) \<le> 51))"
  using chunk_running_total_bounded [of functionAndClass 51] .

text \<open>
  C2 as stated fails: with the limit 51 the example function (estimate 51) is not
  oversized, the only chunk is the input itself, and its serialized estimate is 58.
\<close>

theorem chunk_size_counterexample:
  "\<not> oversizedFunction 51 exampleFunction
   \<and> chunkCodebase functionsOnly 51 = [functionsOnly]
   \<and> 51 < estimateTokens (stringifyResult functionsOnly)"
proof (intro conjI)
  show "\<not> oversizedFunction 51 exampleFunction"
    by (simp add: oversizedFunction_def exampleFunction_tokens)
  show "chunkCodebase functionsOnly 51 = [functionsOnly]"
    by (simp add: chunkCodebase_def functionPass_def classPass_def functionsOnly_def
        exampleFunction_tokens)
  show "51 < estimateTokens (stringifyResult functionsOnly)"
    by (simp add: functionsOnly_tokens)
qed

text \<open>
  C3, as amended. The chunker never returns an empty sequence. The functions of the
  chunks of the function pass, concatenated in order, are the input functions in their
  order, each oversized one with its body replaced; the classes of the chunks of the
  class pass, concatenated in order, are what is emitted for the input classes in
  their order, and the methods of what is emitted for a class are the methods of that
  class in their order. The result is the chunks of the two passes, or the input alone
  when both passes give nothing. (Concatenating over all chunks repeats entities: each
  chunk of one pass also carries the whole list of the other kind.)
\<close>

theorem chunk_passes_reproduce_input:
  "chunkCodebase ctx m \<noteq> []
   \<and> chunkCodebase ctx m
       = (if functionPass ctx m @ classPass ctx m = [] then [ctx]
          else functionPass ctx m @ classPass ctx m)
   \<and> concat (map ar_functions (functionPass ctx m)) = map (emittedFunction m) (ar_functions ctx)
   \<and> concat (map ar_classes (classPass ctx m)) = concat (map (emittedClass m) (ar_classes ctx))
   \<and> concat (map cls_methods (emittedClass m cls)) = cls_methods cls"
proof (intro conjI)
  show "chunkCodebase ctx m \<noteq> []"
    by (simp add: chunkCodebase_def Let_def)
  show "chunkCodebase ctx m
       = (if functionPass ctx m @ classPass ctx m = [] then [ctx]
          else functionPass ctx m @ classPass ctx m)"
    by (simp add: chunkCodebase_def Let_def)
  show "concat (map ar_functions (functionPass ctx m))
          = map (emittedFunction m) (ar_functions ctx)"
    using functionLoop_concat [of m "ar_functions ctx" "[]" "[]" 0]
    by (simp add: functionPass_def comp_def)
  show "concat (map ar_classes (classPass ctx m))
          = concat (map (emittedClass m) (ar_classes ctx))"
    using classLoop_concat [of m "ar_classes ctx" "[]" "[]" 0]
    by (simp add: classPass_def comp_def)
  show "concat (map cls_methods (emittedClass m cls)) = cls_methods cls"
    by (rule emittedClass_methods)
qed

text \<open>
  C3 as stated fails: for one function and one class, neither oversized, the chunker
  returns two chunks that both hold the function, so the functions of all chunks
  concatenated are the function twice.
\<close>

theorem chunk_concat_counterexample:
  "\<not> oversizedFunction 32000 exampleFunction
   \<and> \<not> oversizedClass 32000 exampleClass
   \<and> chunkCodebase functionAndClass 32000 = [functionAndClass, functionAndClass]
   \<and> concat (map ar_functions (chunkCodebase functionAndClass 32000))
       = [exampleFunction, exampleFunction]
   \<and> ar_functions functionAndClass = [exampleFunction]"
proof -
  have chunks: "chunkCodebase functionAndClass 32000 = [functionAndClass, functionAndClass]"
    by (simp add: chunkCodebase_def functionPass_def classPass_def functionAndClass_def
        exampleFunction_tokens exampleClass_tokens)
  have fs: "ar_functions functionAndClass = [exampleFunction]"
    by (simp add: functionAndClass_def)
  show ?thesis
    by (simp add: chunks fs oversizedFunction_def oversizedClass_def
        exampleFunction_tokens exampleClass_tokens)
qed

text \<open>
  C6, as amended. A function whose own estimate exceeds \<open>maxChunkSize\<close> is put into the
  current chunk with its body replaced by the placeholder
  \<open>/* Body too large, truncated */\<close> and every other property unchanged: the chunks
  closed so far and the running total stay as they are, whatever the total then is.
  In the output it stands, as one record, at the position the function had in the input.
\<close>

theorem oversized_function_truncated:
  assumes "oversizedFunction m func"
  shows "functionLoop m (func # rest) functionChunks currentChunk currentSize
           = functionLoop m rest functionChunks
               (currentChunk @ [func\<lparr>fn_body := Some ''/* Body too large, truncated */''\<rparr>])
               currentSize
         \<and> concat (functionLoop m (before @ func # rest) [] [] 0) ! length before
           = func\<lparr>fn_body := Some ''/* Body too large, truncated */''\<rparr>
         \<and> length (concat (functionLoop m (before @ func # rest) [] [] 0))
           = length (before @ func # rest)"
proof (intro conjI)
  show "functionLoop m (func # rest) functionChunks currentChunk currentSize
           = functionLoop m rest functionChunks
               (currentChunk @ [func\<lparr>fn_body := Some ''/* Body too large, truncated */''\<rparr>])
               currentSize"
    using assms by (simp add: oversizedFunction_def Let_def truncatedBody_def)
  have "concat (functionLoop m (before @ func # rest) [] [] 0) ! length before
          = emittedFunction m func"
    by (simp add: functionLoop_concat nth_append)
  with assms show "concat (functionLoop m (before @ func # rest) [] [] 0) ! length before
           = func\<lparr>fn_body := Some ''/* Body too large, truncated */''\<rparr>"
    by (simp add: emittedFunction_def truncatedBody_def)
  show "length (concat (functionLoop m (before @ func # rest) [] [] 0))
           = length (before @ func # rest)"
    by (simp add: functionLoop_concat)
qed

theorem oversized_function_truncated_witness:
  "oversizedFunction 10 exampleFunction
   \<and> functionLoop 10 [exampleFunction] [] [] 0
       = [[exampleFunction\<lparr>fn_body := Some ''/* Body too large, truncated */''\<rparr>]]"
proof -
  have big: "oversizedFunction 10 exampleFunction"
    by (simp add: oversizedFunction_def exampleFunction_tokens)
  from oversized_function_truncated [OF big, of "[]" "[]" "[]" 0 "[]"] big
  show ?thesis by simp
qed

text \<open>
  C6 as stated fails on the text of the placeholder: the body of the reduced function
  is not the string \<open>body too large, truncated\<close>.
\<close>

theorem placeholder_counterexample:
  "oversizedFunction 10 exampleFunction
   \<and> map (map fn_body) (functionLoop 10 [exampleFunction] [] [] 0)
       \<noteq> [[Some ''body too large, truncated'']]"
  by (simp add: oversizedFunction_def exampleFunction_tokens Let_def truncatedBody_def)

text \<open>
  C7, as amended. A class whose own estimate exceeds \<open>maxChunkSize\<close>, and whose methods
  each fit the limit, is put into the current class chunk as one partial class per
  method group of the greedy inner loop: the chunks closed so far and the running total
  stay as they are. The partial class number \<open>i\<close> (from 0) is the class with its methods
  replaced by group \<open>i\<close> and the note \<open>Part i+1/N of large class\<close>, \<open>N\<close> the number of
  groups, every other property unchanged. The groups, in order, make up the methods of
  the class in order; no group is empty, the method estimates of a group sum to at most
  the limit, and so \<open>N\<close> is at least the total of the method estimates divided by the
  limit, rounded up, but need not equal it.
\<close>

theorem large_class_split_by_methods:
  assumes "oversizedClass m cls"
    and "\<forall>method\<in>set (cls_methods cls). methodTokens method \<le> m"
  shows "classLoop m (cls # rest) classChunks currentChunk currentSize
           = classLoop m rest classChunks
               (currentChunk @ partialClasses cls (methodChunksOf m cls)) currentSize
         \<and> length (partialClasses cls (methodChunksOf m cls)) = length (methodChunksOf m cls)
         \<and> (\<forall>i < length (methodChunksOf m cls).
               partialClasses cls (methodChunksOf m cls) ! i
                 = cls\<lparr>cls_methods := methodChunksOf m cls ! i,
                       cls_note := Some (''Part '' @ showNat (i + 1) @ ''/''
                                         @ showNat (length (methodChunksOf m cls))
                                         @ '' of large class'')\<rparr>)
         \<and> concat (methodChunksOf m cls) = cls_methods cls
         \<and> (\<forall>g\<in>set (methodChunksOf m cls). g \<noteq> [] \<and> sum_list (map methodTokens g) \<le> m)
         \<and> sum_list (map methodTokens (cls_methods cls)) \<le> length (methodChunksOf m cls) * m"
proof -
  have step: "classLoop m (cls # rest) classChunks currentChunk currentSize
           = classLoop m rest classChunks
               (currentChunk @ partialClasses cls (methodChunksOf m cls)) currentSize"
    using assms(1) by (simp add: oversizedClass_def Let_def methodChunksOf_def)
  have parts: "\<forall>i < length (methodChunksOf m cls).
               partialClasses cls (methodChunksOf m cls) ! i
                 = cls\<lparr>cls_methods := methodChunksOf m cls ! i,
                       cls_note := Some (''Part '' @ showNat (i + 1) @ ''/''
                                         @ showNat (length (methodChunksOf m cls))
                                         @ '' of large class'')\<rparr>"
    by (simp add: nth_partialClasses partNote_def del: showNat.simps)
  have order: "concat (methodChunksOf m cls) = cls_methods cls"
    by (simp add: methodChunksOf_def methodLoop_concat)
  have groups: "\<forall>g\<in>set (methodChunksOf m cls). g \<noteq> [] \<and> sum_list (map methodTokens g) \<le> m"
    unfolding methodChunksOf_def using assms(2) by (intro methodLoop_groups) simp_all
  then have "sum_list (map methodTokens (concat (methodChunksOf m cls)))
               \<le> length (methodChunksOf m cls) * m"
    by (intro sum_list_concat_le) simp
  with order have total:
    "sum_list (map methodTokens (cls_methods cls)) \<le> length (methodChunksOf m cls) * m"
    by simp
  from step parts order groups total show ?thesis
    by (simp only: length_partialClasses simp_thms)
qed

lemma exampleClass_groups:
  "methodChunksOf 30 exampleClass
     = [[exampleMethod ''a''], [exampleMethod ''b''], [exampleMethod ''c'']]"
  by (simp add: methodChunksOf_def exampleClass_methods exampleMethod_tokens)

lemma exampleClass_loop:
  "classLoop 30 [exampleClass] [] [] 0
     = [partialClasses exampleClass
          [[exampleMethod ''a''], [exampleMethod ''b''], [exampleMethod ''c'']]]"
proof -
  have "partialClasses exampleClass
          [[exampleMethod ''a''], [exampleMethod ''b''], [exampleMethod ''c'']] \<noteq> []"
    by (simp add: partialClasses_def)
  then show ?thesis
    using exampleClass_groups by (simp add: exampleClass_tokens methodChunksOf_def)
qed

theorem large_class_split_by_methods_witness:
  "oversizedClass 30 exampleClass
   \<and> list_all (\<lambda>method. methodTokens method \<le> 30) (cls_methods exampleClass)
   \<and> classLoop 30 [exampleClass] [] [] 0
       = [partialClasses exampleClass
            [[exampleMethod ''a''], [exampleMethod ''b''], [exampleMethod ''c'']]]
   \<and> sum_list (map methodTokens (cls_methods exampleClass)) \<le> 3 * 30"
proof -
  have big: "oversizedClass 30 exampleClass"
    by (simp add: oversizedClass_def exampleClass_tokens)
  have fits: "\<forall>method\<in>set (cls_methods exampleClass). methodTokens method \<le> 30"
    by (simp add: exampleClass_methods methodTokens_def exampleMethod_tokens)
  from large_class_split_by_methods [OF big fits, of "[]" "[]" "[]" 0]
  have "sum_list (map methodTokens (cls_methods exampleClass))
          \<le> length (methodChunksOf 30 exampleClass) * 30"
    by blast
  then have total: "sum_list (map methodTokens (cls_methods exampleClass)) \<le> 3 * 30"
    by (simp add: exampleClass_groups)
  from fits have "list_all (\<lambda>method. methodTokens method \<le> 30) (cls_methods exampleClass)"
    by (simp only: list_all_iff)
  with big total exampleClass_loop show ?thesis
    by (simp only: simp_thms)
qed

text \<open>
  C7 as stated fails on the number of partial classes: with the limit 30 the three
  methods of the example class (estimate 20 each, 60 together) give three partial
  classes, and 60 / 30 rounded up is 2.
\<close>

theorem partial_count_counterexample:
  "oversizedClass 30 exampleClass
   \<and> sum_list (map methodTokens (cls_methods exampleClass)) = 60
   \<and> map length (classLoop 30 [exampleClass] [] [] 0) = [3]
   \<and> (60 + 30 - 1) div 30 = (2::nat)"
proof (intro conjI)
  show "oversizedClass 30 exampleClass"
    by (simp add: oversizedClass_def exampleClass_tokens)
  show "sum_list (map methodTokens (cls_methods exampleClass)) = 60"
    by (simp add: exampleClass_methods methodTokens_def exampleMethod_tokens)
  show "map length (classLoop 30 [exampleClass] [] [] 0) = [3]"
    by (simp only: exampleClass_loop) (simp add: length_partialClasses)
  show "(60 + 30 - 1) div 30 = (2::nat)"
    by simp
qed

text \<open>
  C10. When the input has at least one function and at least one class, the result is
  the chunks of the function pass followed by those of the class pass; every chunk of
  the function pass is the input with only its functions replaced, so it carries the
  whole list of classes, and every chunk of the class pass is the input with only its
  classes replaced, so it carries the whole list of functions. The list put in is the
  packed subset: the input functions fall into consecutive non-empty runs, one chunk
  per run in order, and the chunk's functions are the functions of its run, an
  oversized one with its body replaced; the estimates a run adds to the running total
  sum to at most the limit, and each run after the first starts with a function that
  fits the limit and did not fit on top of the run before. The same holds for the
  classes, a chunk's classes being what is emitted for the classes of its run.
\<close>

theorem chunk_is_input_with_one_list_replaced:
  assumes "ar_functions ctx \<noteq> []" and "ar_classes ctx \<noteq> []"
  shows "chunkCodebase ctx m = functionPass ctx m @ classPass ctx m
         \<and> functionPass ctx m \<noteq> []
         \<and> (\<forall>ch\<in>set (functionPass ctx m).
               ar_classes ch = ar_classes ctx \<and> ch = ctx\<lparr>ar_functions := ar_functions ch\<rparr>)
         \<and> (\<forall>ch\<in>set (classPass ctx m).
               ar_functions ch = ar_functions ctx \<and> ch = ctx\<lparr>ar_classes := ar_classes ch\<rparr>)
         \<and> (\<exists>gs. concat gs = ar_functions ctx \<and> [] \<notin> set gs
               \<and> functionPass ctx m
                   = map (\<lambda>g. ctx\<lparr>ar_functions := map (emittedFunction m) g\<rparr>) gs
               \<and> (\<forall>g\<in>set gs. sum_list (map (countedFunction m) g) \<le> m)
               \<and> greedyRuns m functionTokens (countedFunction m) gs)
         \<and> (\<exists>gs dropped. concat gs @ dropped = ar_classes ctx
               \<and> concat (map (emittedClass m) dropped) = []
               \<and> classPass ctx m
                   = map (\<lambda>g. ctx\<lparr>ar_classes := concat (map (emittedClass m) g)\<rparr>) gs
               \<and> (\<forall>g\<in>set gs. concat (map (emittedClass m) g) \<noteq> []
                                \<and> sum_list (map (countedClass m) g) \<le> m)
               \<and> greedyRuns m classTokens (countedClass m) gs)"
proof -
  have nonempty: "functionPass ctx m \<noteq> []"
    using assms(1) by (simp add: functionPass_def functionLoop_empty_iff)
  then have whole: "chunkCodebase ctx m = functionPass ctx m @ classPass ctx m"
    by (simp add: chunkCodebase_def Let_def)
  have fchunks: "\<forall>ch\<in>set (functionPass ctx m).
      ar_classes ch = ar_classes ctx \<and> ch = ctx\<lparr>ar_functions := ar_functions ch\<rparr>"
    by (auto simp add: functionPass_def)
  have cchunks: "\<forall>ch\<in>set (classPass ctx m).
      ar_functions ch = ar_functions ctx \<and> ch = ctx\<lparr>ar_classes := ar_classes ch\<rparr>"
    by (auto simp add: classPass_def)
  have "\<exists>gs'. concat gs' = concat [] @ [] @ ar_functions ctx
          \<and> functionLoop m (ar_functions ctx) [] [] 0 = map (map (emittedFunction m)) gs'
          \<and> (\<forall>x\<in>set gs'. sum_list (map (countedFunction m) x) \<le> m)
          \<and> [] \<notin> set gs'
          \<and> greedyRuns m functionTokens (countedFunction m) gs'"
    by (rule functionLoop_runs) simp_all
  then have fruns: "\<exists>gs. concat gs = ar_functions ctx \<and> [] \<notin> set gs
               \<and> functionPass ctx m
                   = map (\<lambda>g. ctx\<lparr>ar_functions := map (emittedFunction m) g\<rparr>) gs
               \<and> (\<forall>g\<in>set gs. sum_list (map (countedFunction m) g) \<le> m)
               \<and> greedyRuns m functionTokens (countedFunction m) gs"
    by (auto simp add: functionPass_def comp_def)
  have "\<exists>gs' dropped. concat gs' @ dropped = concat [] @ [] @ ar_classes ctx
          \<and> concat (map (emittedClass m) dropped) = []
          \<and> classLoop m (ar_classes ctx) [] [] 0
              = map (\<lambda>x. concat (map (emittedClass m) x)) gs'
          \<and> (\<forall>x\<in>set gs'. concat (map (emittedClass m) x) \<noteq> []
                         \<and> sum_list (map (countedClass m) x) \<le> m)
          \<and> greedyRuns m classTokens (countedClass m) gs'"
    by (rule classLoop_runs) simp_all
  then obtain gs dropped where c:
    "concat gs @ dropped = ar_classes ctx"
    "concat (map (emittedClass m) dropped) = []"
    "classLoop m (ar_classes ctx) [] [] 0 = map (\<lambda>x. concat (map (emittedClass m) x)) gs"
    "\<forall>x\<in>set gs. concat (map (emittedClass m) x) \<noteq> []
                 \<and> sum_list (map (countedClass m) x) \<le> m"
    "greedyRuns m classTokens (countedClass m) gs"
    by auto
  from c(3) have "classPass ctx m
      = map (\<lambda>g. ctx\<lparr>ar_classes := concat (map (emittedClass m) g)\<rparr>) gs"
    by (simp add: classPass_def comp_def)
  with c have cruns: "\<exists>gs dropped. concat gs @ dropped = ar_classes ctx
               \<and> concat (map (emittedClass m) dropped) = []
               \<and> classPass ctx m
                   = map (\<lambda>g. ctx\<lparr>ar_classes := concat (map (emittedClass m) g)\<rparr>) gs
               \<and> (\<forall>g\<in>set gs. concat (map (emittedClass m) g) \<noteq> []
                                \<and> sum_list (map (countedClass m) g) \<le> m)
               \<and> greedyRuns m classTokens (countedClass m) gs"
    by blast
  from whole nonempty fchunks cchunks fruns cruns show ?thesis
    by (intro conjI)
qed

theorem chunk_is_input_with_one_list_replaced_witness:
  "ar_functions functionAndClass \<noteq> [] \<and> ar_classes functionAndClass \<noteq> []
   \<and> chunkCodebase functionAndClass 32000
       = functionPass functionAndClass 32000 @ classPass functionAndClass 32000
   \<and> functionPass functionAndClass 32000 = [functionAndClass]
   \<and> classPass functionAndClass 32000 = [functionAndClass]"
proof -
  have fs: "ar_functions functionAndClass \<noteq> []" and cs: "ar_classes functionAndClass \<noteq> []"
    by (simp_all add: functionAndClass_def)
  have f: "functionPass functionAndClass 32000 = [functionAndClass]"
    by (simp add: functionPass_def functionAndClass_def exampleFunction_tokens)
  have c: "classPass functionAndClass 32000 = [functionAndClass]"
    by (simp add: classPass_def functionAndClass_def exampleClass_tokens)
  from chunk_is_input_with_one_list_replaced [OF fs cs, of 32000]
  have "chunkCodebase functionAndClass 32000
          = functionPass functionAndClass 32000 @ classPass functionAndClass 32000"
    by (rule conjunct1)
  with fs cs f c show ?thesis
    by (intro conjI)
qed

section \<open>Evaluating the example world\<close>

lemma exampleTree_files:
  "listFilesRecursively ''/p'' exampleTree
     = Inr [''/p/foo.ts'', ''/p/bar.ts'', ''/p/readme.md'', ''/p/App.tsx'']"
  by (simp add: exampleTree_def IGNORED_DIRS_def path_join_def)

lemma exampleWorld_path:
  "resolvedPathOf (exampleWorld broken) '' /p '' = ''/p''"
  "resolvedPathOf (exampleWorld broken) ''/f'' = ''/f''"
  by (simp_all add: resolvedPathOf_def exampleWorld_def trim_def isSpace_def)

lemma exampleWorld_lookup:
  "lookup (exampleWorld broken) ''/p'' = Some exampleTree"
  "lookup (exampleWorld broken) ''/f'' = Some File"
  by (simp_all add: exampleWorld_def)

lemma exampleWorld_exists:
  "existsSync (exampleWorld broken) ''/p''"
  "existsSync (exampleWorld broken) ''/f''"
  by (simp_all add: existsSync_def exampleWorld_lookup exampleTree_def)

lemma example_codeFiles:
  "filter isCodeFile [''/p/foo.ts'', ''/p/bar.ts'', ''/p/readme.md'', ''/p/App.tsx'']
     = [''/p/foo.ts'', ''/p/bar.ts'']"
  by (simp add: isCodeFile_def endsWith_def)

lemma example_parsers:
  "getParserForFile ''/p/foo.ts'' = Some TypeScriptParser"
  "getParserForFile ''/p/bar.ts'' = Some TypeScriptParser"
  "getParserForFile ''/p/App.tsx'' = Some TypeScriptParser"
  by (simp_all add: getParserForFile_def parsers_def endsWith_def)

lemma exampleWorld_outcome:
  "fileOutcome (exampleWorld broken) ''/p/foo.ts''
     = Some (Inr \<lparr>po_functions = Some [exampleFunction], po_classes = Some []\<rparr>)"
  "fileOutcome (exampleWorld broken) ''/p/bar.ts''
     = Some (if broken then Inl ''Unexpected token''
             else Inr \<lparr>po_functions = Some [], po_classes = Some []\<rparr>)"
  "fileOutcome (exampleWorld broken) ''/p/App.tsx''
     = Some (Inr \<lparr>po_functions = Some [appFunction], po_classes = Some []\<rparr>)"
  by (simp_all add: fileOutcome_def example_parsers exampleWorld_def)

section \<open>Properties of the analyzer\<close>

lemma analyzeFiles_run:
  "analyzeFiles w files r
     = \<lparr>returned =
          \<lparr>ar_functions = ar_functions (returned r) @ concat (map (fileFunctions w) files),
           ar_classes = ar_classes (returned r) @ concat (map (fileClasses w) files)\<rparr>,
        logged = logged r @ concat (map (fileFailure w) files)\<rparr>"
proof (induction files arbitrary: r)
  case Nil
  show ?case by simp
next
  case (Cons f files)
  show ?case
    by (simp add: Cons.IH fileFunctions_def fileClasses_def fileFailure_def fileOutcome_def
        split: option.splits sum.splits)
qed

lemma analyzeProject_Inr:
  assumes "analyzeProject w folder = Inr r"
  shows "\<exists>node files. lookup w (resolvedPathOf w folder) = Some node
           \<and> existsSync w (resolvedPathOf w folder)
           \<and> listFilesRecursively (resolvedPathOf w folder) node = Inr files
           \<and> r = analyzeFiles w (filter isCodeFile files)
                    \<lparr>returned = \<lparr>ar_functions = [], ar_classes = []\<rparr>, logged = []\<rparr>"
  using assms
  by (auto simp add: analyzeProject_def resolvedPathOf_def Let_def
      split: if_splits option.splits sum.splits)

lemma existsSync_lookup: "existsSync w p \<Longrightarrow> \<exists>node. lookup w p = Some node"
  by (auto simp add: existsSync_def split: option.splits)

text \<open>
  C1, as amended. When the trimmed, normalized root path does not exist,
  \<open>analyzeProject\<close> throws \<open>Folder does not exist\<close> and returns nothing. When it exists,
  the call throws exactly when listing the tree throws (the root is not a directory,
  a directory cannot be read, an entry cannot be examined); otherwise it returns,
  however many files fail to parse, and the aggregate is, in traversal order, what each
  file ending in \<open>.ts\<close> or \<open>.js\<close> parsed to, a failing file adding nothing.
\<close>

theorem analyzeProject_throws_or_returns:
  "(\<not> existsSync w (resolvedPathOf w folder) \<longrightarrow>
      analyzeProject w folder = Inl (FolderDoesNotExist (resolvedPathOf w folder)))
   \<and> (existsSync w (resolvedPathOf w folder) \<longrightarrow>
        (\<exists>node. lookup w (resolvedPathOf w folder) = Some node
           \<and> (case listFilesRecursively (resolvedPathOf w folder) node of
                 Inl e \<Rightarrow> analyzeProject w folder = Inl (FileSystemError e)
               | Inr files \<Rightarrow>
                   (\<exists>r. analyzeProject w folder = Inr r
                      \<and> ar_functions (returned r)
                          = concat (map (fileFunctions w) (filter isCodeFile files))
                      \<and> ar_classes (returned r)
                          = concat (map (fileClasses w) (filter isCodeFile files))))))
   \<and> (\<forall>file err. fileOutcome w file = Some (Inl err) \<longrightarrow>
         fileFunctions w file = [] \<and> fileClasses w file = [])"
proof (intro conjI impI allI)
  assume "\<not> existsSync w (resolvedPathOf w folder)"
  then show "analyzeProject w folder = Inl (FolderDoesNotExist (resolvedPathOf w folder))"
    by (simp add: analyzeProject_def resolvedPathOf_def Let_def)
next
  assume ex: "existsSync w (resolvedPathOf w folder)"
  then obtain node where node: "lookup w (resolvedPathOf w folder) = Some node"
    using existsSync_lookup by blast
  have "case listFilesRecursively (resolvedPathOf w folder) node of
          Inl e \<Rightarrow> analyzeProject w folder = Inl (FileSystemError e)
        | Inr files \<Rightarrow>
            (\<exists>r. analyzeProject w folder = Inr r
               \<and> ar_functions (returned r)
                   = concat (map (fileFunctions w) (filter isCodeFile files))
               \<and> ar_classes (returned r)
                   = concat (map (fileClasses w) (filter isCodeFile files)))"
    using ex node
    by (simp add: analyzeProject_def resolvedPathOf_def Let_def analyzeFiles_run
        split: sum.splits)
  with node show "\<exists>node. lookup w (resolvedPathOf w folder) = Some node
           \<and> (case listFilesRecursively (resolvedPathOf w folder) node of
                 Inl e \<Rightarrow> analyzeProject w folder = Inl (FileSystemError e)
               | Inr files \<Rightarrow>
                   (\<exists>r. analyzeProject w folder = Inr r
                      \<and> ar_functions (returned r)
                          = concat (map (fileFunctions w) (filter isCodeFile files))
                      \<and> ar_classes (returned r)
                          = concat (map (fileClasses w) (filter isCodeFile files))))"
    by blast
next
  fix f err
  assume "fileOutcome w f = Some (Inl err)"
  then show "fileFunctions w f = []" and "fileClasses w f = []"
    by (simp_all add: fileFunctions_def fileClasses_def)
qed

theorem analyzeProject_throws_or_returns_witness:
  "existsSync (exampleWorld True) (resolvedPathOf (exampleWorld True) '' /p '')
   \<and> fileOutcome (exampleWorld True) ''/p/bar.ts'' = Some (Inl ''Unexpected token'')
   \<and> (\<exists>r. analyzeProject (exampleWorld True) '' /p '' = Inr r
          \<and> ar_functions (returned r) = [exampleFunction]
          \<and> ar_classes (returned r) = [])"
proof -
  have ex: "existsSync (exampleWorld True) (resolvedPathOf (exampleWorld True) '' /p '')"
    by (simp add: exampleWorld_path exampleWorld_exists)
  have "\<exists>node. lookup (exampleWorld True) ''/p'' = Some node
           \<and> (case listFilesRecursively ''/p'' node of
                 Inl e \<Rightarrow> analyzeProject (exampleWorld True) '' /p '' = Inl (FileSystemError e)
               | Inr files \<Rightarrow>
                   (\<exists>r. analyzeProject (exampleWorld True) '' /p '' = Inr r
                      \<and> ar_functions (returned r)
                          = concat (map (fileFunctions (exampleWorld True))
                                     (filter isCodeFile files))
                      \<and> ar_classes (returned r)
                          = concat (map (fileClasses (exampleWorld True))
                                     (filter isCodeFile files))))"
    using analyzeProject_throws_or_returns [of "exampleWorld True" "'' /p ''"] ex
    by (simp add: exampleWorld_path)
  then obtain node where
    n: "lookup (exampleWorld True) ''/p'' = Some node" and
    c: "case listFilesRecursively ''/p'' node of
          Inl e \<Rightarrow> analyzeProject (exampleWorld True) '' /p '' = Inl (FileSystemError e)
        | Inr files \<Rightarrow>
            (\<exists>r. analyzeProject (exampleWorld True) '' /p '' = Inr r
               \<and> ar_functions (returned r)
                   = concat (map (fileFunctions (exampleWorld True))
                              (filter isCodeFile files))
               \<and> ar_classes (returned r)
                   = concat (map (fileClasses (exampleWorld True))
                              (filter isCodeFile files)))"
    by blast
  from n have "node = exampleTree"
    by (simp add: exampleWorld_lookup)
  with c have "\<exists>r. analyzeProject (exampleWorld True) '' /p '' = Inr r
      \<and> ar_functions (returned r)
          = concat (map (fileFunctions (exampleWorld True)) [''/p/foo.ts'', ''/p/bar.ts''])
      \<and> ar_classes (returned r)
          = concat (map (fileClasses (exampleWorld True)) [''/p/foo.ts'', ''/p/bar.ts''])"
    by (simp only: exampleTree_files sum.case example_codeFiles)
  then have "\<exists>r. analyzeProject (exampleWorld True) '' /p '' = Inr r
          \<and> ar_functions (returned r) = [exampleFunction]
          \<and> ar_classes (returned r) = []"
    by (simp add: fileFunctions_def fileClasses_def exampleWorld_outcome orEmpty_def)
  with ex show ?thesis
    by (simp add: exampleWorld_outcome)
qed

text \<open>
  C1 as stated fails: \<open>/f\<close> exists (it is a regular file), and \<open>analyzeProject\<close> throws
  all the same, from \<open>readdirSync\<close>.
\<close>

theorem existing_root_counterexample:
  "existsSync (exampleWorld False) (resolvedPathOf (exampleWorld False) ''/f'')
   \<and> analyzeProject (exampleWorld False) ''/f'' = Inl (FileSystemError ENOTDIR)"
proof -
  have "analyzeProject (exampleWorld False) ''/f'' = Inl (FileSystemError ENOTDIR)"
    using exampleWorld_path(2) [of False]
    by (simp add: analyzeProject_def Let_def resolvedPathOf_def exampleWorld_exists
        exampleWorld_lookup)
  then show ?thesis
    by (simp add: exampleWorld_path exampleWorld_exists)
qed

lemma js_not_ts:
  assumes "endsWith f ''.js''"
  shows "\<not> endsWith f ''.ts''" and "\<not> endsWith f ''.tsx''"
  using assms by (cases "rev f"; simp add: endsWith_def)+

lemma isCodeFile_parser:
  assumes "isCodeFile f"
  shows "getParserForFile f
           = Some (if endsWith f ''.ts'' then TypeScriptParser else BabelParser)"
proof (cases "endsWith f ''.ts''")
  case True
  then show ?thesis by (simp add: getParserForFile_def parsers_def)
next
  case False
  with assms have js: "endsWith f ''.js''" by (simp add: isCodeFile_def)
  from js_not_ts [OF js] js show ?thesis by (simp add: getParserForFile_def parsers_def)
qed

lemma fileOutcome_cong:
  assumes "readFile w' f = readFile w f"
    and "\<forall>parser. parseFile w' parser f = parseFile w parser f"
  shows "fileOutcome w' f = fileOutcome w f"
  using assms by (simp add: fileOutcome_def split: option.splits sum.splits)

lemma analyzeFiles_cong:
  assumes "\<forall>f\<in>set files. readFile w' f = readFile w f
             \<and> (\<forall>parser. parseFile w' parser f = parseFile w parser f)"
  shows "analyzeFiles w' files r = analyzeFiles w files r"
proof -
  have "\<forall>f\<in>set files. fileOutcome w' f = fileOutcome w f"
    using assms fileOutcome_cong by blast
  then have maps: "map (fileFunctions w') files = map (fileFunctions w) files"
    "map (fileClasses w') files = map (fileClasses w) files"
    "map (fileFailure w') files = map (fileFailure w) files"
    by (simp_all add: fileFunctions_def fileClasses_def fileFailure_def)
  show ?thesis unfolding analyzeFiles_run by (simp only: maps)
qed

lemma fileFailure_file: "entry \<in> set (fileFailure w f) \<Longrightarrow> fst entry = f"
  by (auto simp add: fileFailure_def split: option.splits sum.splits)

lemma fileOutcome_code:
  assumes "isCodeFile f"
  shows "fileOutcome w f
           = Some (case readFile w f of
                     Inl err \<Rightarrow> Inl err
                   | Inr code \<Rightarrow>
                       parseFile w (if endsWith f ''.ts'' then TypeScriptParser
                                    else BabelParser) f)"
  by (simp add: fileOutcome_def isCodeFile_parser [OF assms] split: sum.splits)

lemma file_adds_code:
  assumes "isCodeFile f"
  shows "fileFunctions w f
           = (case readFile w f of
                Inl err \<Rightarrow> []
              | Inr code \<Rightarrow>
                  (case parseFile w (if endsWith f ''.ts'' then TypeScriptParser
                                     else BabelParser) f of
                     Inl err \<Rightarrow> []
                   | Inr result \<Rightarrow> orEmpty (po_functions result)))"
    and "fileClasses w f
           = (case readFile w f of
                Inl err \<Rightarrow> []
              | Inr code \<Rightarrow>
                  (case parseFile w (if endsWith f ''.ts'' then TypeScriptParser
                                     else BabelParser) f of
                     Inl err \<Rightarrow> []
                   | Inr result \<Rightarrow> orEmpty (po_classes result)))"
    and "fileFailure w f
           = (case readFile w f of
                Inl err \<Rightarrow> [(f, err)]
              | Inr code \<Rightarrow>
                  (case parseFile w (if endsWith f ''.ts'' then TypeScriptParser
                                     else BabelParser) f of
                     Inl err \<Rightarrow> [(f, err)]
                   | Inr result \<Rightarrow> []))"
  by (simp_all add: fileFunctions_def fileClasses_def fileFailure_def
      fileOutcome_code [OF assms] split: sum.splits)

text \<open>
  C4, as amended. \<open>analyzeProject\<close> keeps of the traversed files exactly those whose
  path ends in \<open>.ts\<close> or \<open>.js\<close>; the registry has a parser for each of them (the
  TypeScript parser for \<open>.ts\<close>, the Babel parser for \<open>.js\<close>), and each is dispatched to
  it: when the root exists and the tree can be listed, the call returns, the aggregate
  is, in traversal order, what reading each kept file and parsing it with its parser
  gives, and the log holds, in the same order, the failures of reading or parsing
  them. Every other file, also one ending in \<open>.tsx\<close>, \<open>.jsx\<close>, \<open>.yml\<close> or \<open>.yaml\<close>
  that a parser of the registry would accept, is skipped silently: it is neither read
  nor parsed (the run is the same whatever reading or parsing it would give) and no
  error is logged for it.
\<close>

theorem only_ts_and_js_dispatched:
  "(\<forall>f. isCodeFile f \<longrightarrow>
        getParserForFile f
          = Some (if endsWith f ''.ts'' then TypeScriptParser else BabelParser))
   \<and> (path_normalize w' = path_normalize w \<and> lookup w' = lookup w
        \<and> (\<forall>f. endsWith f ''.ts'' \<or> endsWith f ''.js'' \<longrightarrow>
               readFile w' f = readFile w f
               \<and> (\<forall>parser. parseFile w' parser f = parseFile w parser f))
        \<longrightarrow> analyzeProject w' folder = analyzeProject w folder)
   \<and> (\<forall>r. analyzeProject w folder = Inr r \<longrightarrow>
          (\<forall>entry\<in>set (logged r).
             endsWith (fst entry) ''.ts'' \<or> endsWith (fst entry) ''.js''))
   \<and> (\<forall>node files.
          existsSync w (resolvedPathOf w folder)
          \<and> lookup w (resolvedPathOf w folder) = Some node
          \<and> listFilesRecursively (resolvedPathOf w folder) node = Inr files \<longrightarrow>
          (\<exists>r. analyzeProject w folder = Inr r
             \<and> ar_functions (returned r)
                 = concat (map (\<lambda>f. case readFile w f of
                                        Inl err \<Rightarrow> []
                                      | Inr code \<Rightarrow>
                                          (case parseFile w
                                                  (if endsWith f ''.ts'' then TypeScriptParser
                                                   else BabelParser) f of
                                             Inl err \<Rightarrow> []
                                           | Inr result \<Rightarrow> orEmpty (po_functions result)))
                             (filter (\<lambda>f. endsWith f ''.ts'' \<or> endsWith f ''.js'') files))
             \<and> ar_classes (returned r)
                 = concat (map (\<lambda>f. case readFile w f of
                                        Inl err \<Rightarrow> []
                                      | Inr code \<Rightarrow>
                                          (case parseFile w
                                                  (if endsWith f ''.ts'' then TypeScriptParser
                                                   else BabelParser) f of
                                             Inl err \<Rightarrow> []
                                           | Inr result \<Rightarrow> orEmpty (po_classes result)))
                             (filter (\<lambda>f. endsWith f ''.ts'' \<or> endsWith f ''.js'') files))
             \<and> logged r
                 = concat (map (\<lambda>f. case readFile w f of
                                        Inl err \<Rightarrow> [(f, err)]
                                      | Inr code \<Rightarrow>
                                          (case parseFile w
                                                  (if endsWith f ''.ts'' then TypeScriptParser
                                                   else BabelParser) f of
                                             Inl err \<Rightarrow> [(f, err)]
                                           | Inr result \<Rightarrow> []))
                             (filter (\<lambda>f. endsWith f ''.ts'' \<or> endsWith f ''.js'') files))))"
proof (intro conjI allI impI)
  fix f
  assume "isCodeFile f"
  then show "getParserForFile f
          = Some (if endsWith f ''.ts'' then TypeScriptParser else BabelParser)"
    by (rule isCodeFile_parser)
next
  assume same: "path_normalize w' = path_normalize w \<and> lookup w' = lookup w
        \<and> (\<forall>f. endsWith f ''.ts'' \<or> endsWith f ''.js'' \<longrightarrow>
               readFile w' f = readFile w f
               \<and> (\<forall>parser. parseFile w' parser f = parseFile w parser f))"
  have loop: "analyzeFiles w' (filter isCodeFile files) r
                = analyzeFiles w (filter isCodeFile files) r" for files r
    using same by (intro analyzeFiles_cong) (auto simp add: isCodeFile_def)
  from same have pn: "path_normalize w' = path_normalize w" and lk: "lookup w' = lookup w"
    by simp_all
  show "analyzeProject w' folder = analyzeProject w folder"
    by (simp only: analyzeProject_def existsSync_def pn lk loop)
next
  fix r
  assume "analyzeProject w folder = Inr r"
  then obtain files where
    "r = analyzeFiles w (filter isCodeFile files)
           \<lparr>returned = \<lparr>ar_functions = [], ar_classes = []\<rparr>, logged = []\<rparr>"
    using analyzeProject_Inr by blast
  then have "logged r = concat (map (fileFailure w) (filter isCodeFile files))"
    by (simp add: analyzeFiles_run)
  then have "\<forall>entry\<in>set (logged r). isCodeFile (fst entry)"
    by (auto dest: fileFailure_file)
  then show "\<forall>entry\<in>set (logged r).
             endsWith (fst entry) ''.ts'' \<or> endsWith (fst entry) ''.js''"
    by (simp add: isCodeFile_def)
next
  fix node files
  assume a: "existsSync w (resolvedPathOf w folder)
          \<and> lookup w (resolvedPathOf w folder) = Some node
          \<and> listFilesRecursively (resolvedPathOf w folder) node = Inr files"
  let ?kept = "filter (\<lambda>f. endsWith f ''.ts'' \<or> endsWith f ''.js'') files"
  let ?r = "analyzeFiles w ?kept
              \<lparr>returned = \<lparr>ar_functions = [], ar_classes = []\<rparr>, logged = []\<rparr>"
  have kept: "filter isCodeFile files = ?kept"
    by (simp add: isCodeFile_def [abs_def])
  have run: "analyzeProject w folder = Inr ?r"
    using a by (simp add: analyzeProject_def resolvedPathOf_def Let_def kept)
  have code: "\<forall>f\<in>set ?kept. isCodeFile f"
    by (simp add: isCodeFile_def)
  have fs: "map (fileFunctions w) ?kept
      = map (\<lambda>f. case readFile w f of
                   Inl err \<Rightarrow> []
                 | Inr code \<Rightarrow>
                     (case parseFile w (if endsWith f ''.ts'' then TypeScriptParser
                                        else BabelParser) f of
                        Inl err \<Rightarrow> []
                      | Inr result \<Rightarrow> orEmpty (po_functions result))) ?kept"
    using code by (intro map_cong refl file_adds_code(1)) blast
  have cs: "map (fileClasses w) ?kept
      = map (\<lambda>f. case readFile w f of
                   Inl err \<Rightarrow> []
                 | Inr code \<Rightarrow>
                     (case parseFile w (if endsWith f ''.ts'' then TypeScriptParser
                                        else BabelParser) f of
                        Inl err \<Rightarrow> []
                      | Inr result \<Rightarrow> orEmpty (po_classes result))) ?kept"
    using code by (intro map_cong refl file_adds_code(2)) blast
  have ls: "map (fileFailure w) ?kept
      = map (\<lambda>f. case readFile w f of
                   Inl err \<Rightarrow> [(f, err)]
                 | Inr code \<Rightarrow>
                     (case parseFile w (if endsWith f ''.ts'' then TypeScriptParser
                                        else BabelParser) f of
                        Inl err \<Rightarrow> [(f, err)]
                      | Inr result \<Rightarrow> [])) ?kept"
    using code by (intro map_cong refl file_adds_code(3)) blast
  have "ar_functions (returned ?r) = concat (map (fileFunctions w) ?kept)"
    and "ar_classes (returned ?r) = concat (map (fileClasses w) ?kept)"
    and "logged ?r = concat (map (fileFailure w) ?kept)"
    by (simp_all add: analyzeFiles_run del: analyzeFiles.simps)
  with run show "\<exists>r. analyzeProject w folder = Inr r
             \<and> ar_functions (returned r)
                 = concat (map (\<lambda>f. case readFile w f of
                                        Inl err \<Rightarrow> []
                                      | Inr code \<Rightarrow>
                                          (case parseFile w
                                                  (if endsWith f ''.ts'' then TypeScriptParser
                                                   else BabelParser) f of
                                             Inl err \<Rightarrow> []
                                           | Inr result \<Rightarrow> orEmpty (po_functions result)))
                             (filter (\<lambda>f. endsWith f ''.ts'' \<or> endsWith f ''.js'') files))
             \<and> ar_classes (returned r)
                 = concat (map (\<lambda>f. case readFile w f of
                                        Inl err \<Rightarrow> []
                                      | Inr code \<Rightarrow>
                                          (case parseFile w
                                                  (if endsWith f ''.ts'' then TypeScriptParser
                                                   else BabelParser) f of
                                             Inl err \<Rightarrow> []
                                           | Inr result \<Rightarrow> orEmpty (po_classes result)))
                             (filter (\<lambda>f. endsWith f ''.ts'' \<or> endsWith f ''.js'') files))
             \<and> logged r
                 = concat (map (\<lambda>f. case readFile w f of
                                        Inl err \<Rightarrow> [(f, err)]
                                      | Inr code \<Rightarrow>
                                          (case parseFile w
                                                  (if endsWith f ''.ts'' then TypeScriptParser
                                                   else BabelParser) f of
                                             Inl err \<Rightarrow> [(f, err)]
                                           | Inr result \<Rightarrow> []))
                             (filter (\<lambda>f. endsWith f ''.ts'' \<or> endsWith f ''.js'') files))"
    by (intro exI [of _ ?r]) (simp only: fs cs ls simp_thms)
qed

lemma exampleWorld_run:
  "analyzeProject (exampleWorld broken) '' /p ''
     = Inr \<lparr>returned = fooOnly,
            logged = (if broken then [(''/p/bar.ts'', ''Unexpected token'')] else [])\<rparr>"
proof -
  have "analyzeProject (exampleWorld broken) '' /p ''
          = Inr (analyzeFiles (exampleWorld broken) [''/p/foo.ts'', ''/p/bar.ts'']
                   \<lparr>returned = \<lparr>ar_functions = [], ar_classes = []\<rparr>, logged = []\<rparr>)"
    using exampleWorld_path(1) [of broken]
    by (simp add: analyzeProject_def Let_def resolvedPathOf_def exampleWorld_exists
        exampleWorld_lookup exampleTree_files example_codeFiles del: filter.simps)
  then show ?thesis
    by (simp add: analyzeFiles_run fileFunctions_def fileClasses_def fileFailure_def
        exampleWorld_outcome orEmpty_def fooOnly_def del: analyzeFiles.simps)
qed

theorem only_ts_and_js_dispatched_witness:
  "getParserForFile ''/p/foo.ts'' = Some TypeScriptParser
   \<and> readFile otherWorld ''/p/App.tsx'' \<noteq> readFile (exampleWorld False) ''/p/App.tsx''
   \<and> analyzeProject otherWorld '' /p '' = analyzeProject (exampleWorld False) '' /p ''
   \<and> (\<exists>r. analyzeProject (exampleWorld True) '' /p '' = Inr r
          \<and> ar_functions (returned r) = [exampleFunction]
          \<and> logged r = [(''/p/bar.ts'', ''Unexpected token'')])"
proof -
  have same: "path_normalize otherWorld = path_normalize (exampleWorld False)
        \<and> lookup otherWorld = lookup (exampleWorld False)
        \<and> (\<forall>f. endsWith f ''.ts'' \<or> endsWith f ''.js'' \<longrightarrow>
               readFile otherWorld f = readFile (exampleWorld False) f
               \<and> (\<forall>parser. parseFile otherWorld parser f
                              = parseFile (exampleWorld False) parser f))"
    by (auto simp add: otherWorld_def endsWith_def)
  have differ: "readFile otherWorld ''/p/App.tsx'' \<noteq> readFile (exampleWorld False) ''/p/App.tsx''"
    by (simp add: otherWorld_def exampleWorld_def)
  note thm1 = only_ts_and_js_dispatched [of otherWorld "exampleWorld False" "'' /p ''"]
  from thm1 [THEN conjunct2, THEN conjunct1] same
  have eq: "analyzeProject otherWorld '' /p '' = analyzeProject (exampleWorld False) '' /p ''"
    by (rule mp)
  note thm2 = only_ts_and_js_dispatched [of "exampleWorld True" "exampleWorld True" "'' /p ''"]
  have listed: "existsSync (exampleWorld True) (resolvedPathOf (exampleWorld True) '' /p '')
          \<and> lookup (exampleWorld True) (resolvedPathOf (exampleWorld True) '' /p '')
              = Some exampleTree
          \<and> listFilesRecursively (resolvedPathOf (exampleWorld True) '' /p '') exampleTree
              = Inr [''/p/foo.ts'', ''/p/bar.ts'', ''/p/readme.md'', ''/p/App.tsx'']"
    by (simp add: exampleWorld_path exampleWorld_exists exampleWorld_lookup exampleTree_files)
  have kept: "filter (\<lambda>f. endsWith f ''.ts'' \<or> endsWith f ''.js'')
                [''/p/foo.ts'', ''/p/bar.ts'', ''/p/readme.md'', ''/p/App.tsx'']
              = [''/p/foo.ts'', ''/p/bar.ts'']"
    by (simp add: endsWith_def)
  from thm2 [THEN conjunct2, THEN conjunct2, THEN conjunct2, THEN spec, THEN spec, THEN mp,
             OF listed]
  have "\<exists>r. analyzeProject (exampleWorld True) '' /p '' = Inr r
          \<and> ar_functions (returned r) = [exampleFunction]
          \<and> logged r = [(''/p/bar.ts'', ''Unexpected token'')]"
    unfolding kept
    by (auto simp add: exampleWorld_def endsWith_def orEmpty_def)
  with eq differ show ?thesis
    by (simp add: example_parsers)
qed

text \<open>
  C4 as stated fails: the registry has a parser for \<open>/p/App.tsx\<close>, which would parse
  to the function \<open>App\<close>, and the file is left out all the same: the aggregate holds
  \<open>foo\<close> only.
\<close>

theorem tsx_not_dispatched_counterexample:
  "getParserForFile ''/p/App.tsx'' = Some TypeScriptParser
   \<and> listFilesRecursively ''/p'' exampleTree
       = Inr [''/p/foo.ts'', ''/p/bar.ts'', ''/p/readme.md'', ''/p/App.tsx'']
   \<and> fileFunctions (exampleWorld False) ''/p/App.tsx'' = [appFunction]
   \<and> analyzeProject (exampleWorld False) '' /p ''
       = Inr \<lparr>returned = \<lparr>ar_functions = [exampleFunction], ar_classes = []\<rparr>, logged = []\<rparr>
   \<and> appFunction \<noteq> exampleFunction"
proof (intro conjI)
  show "getParserForFile ''/p/App.tsx'' = Some TypeScriptParser"
    by (rule example_parsers)
  show "listFilesRecursively ''/p'' exampleTree
       = Inr [''/p/foo.ts'', ''/p/bar.ts'', ''/p/readme.md'', ''/p/App.tsx'']"
    by (rule exampleTree_files)
  show "fileFunctions (exampleWorld False) ''/p/App.tsx'' = [appFunction]"
    by (simp add: fileFunctions_def exampleWorld_outcome orEmpty_def)
  show "analyzeProject (exampleWorld False) '' /p ''
       = Inr \<lparr>returned = \<lparr>ar_functions = [exampleFunction], ar_classes = []\<rparr>, logged = []\<rparr>"
    using exampleWorld_run [of False] by (simp add: fooOnly_def)
  show "appFunction \<noteq> exampleFunction"
    by (simp add: appFunction_def exampleFunction_def)
qed

text \<open>
  C5, as amended. When a file fails to be read or parsed, \<open>analyzeProject\<close> writes the
  file and the error to the log and goes on; the log holds these entries in traversal
  order. The value returned is the aggregate alone, the functions and classes of the
  files that parsed: it carries no record of the failures.
\<close>

theorem failures_logged_not_returned:
  assumes "analyzeProject w folder = Inr r"
  shows "\<exists>node files.
           lookup w (resolvedPathOf w folder) = Some node
           \<and> listFilesRecursively (resolvedPathOf w folder) node = Inr files
           \<and> logged r = concat (map (fileFailure w) (filter isCodeFile files))
           \<and> returned r
               = \<lparr>ar_functions = concat (map (fileFunctions w) (filter isCodeFile files)),
                  ar_classes = concat (map (fileClasses w) (filter isCodeFile files))\<rparr>"
proof -
  from analyzeProject_Inr [OF assms] obtain node files where
    "lookup w (resolvedPathOf w folder) = Some node"
    "listFilesRecursively (resolvedPathOf w folder) node = Inr files"
    "r = analyzeFiles w (filter isCodeFile files)
           \<lparr>returned = \<lparr>ar_functions = [], ar_classes = []\<rparr>, logged = []\<rparr>"
    by blast
  then show ?thesis
    by (intro exI [of _ node] exI [of _ files]) (simp add: analyzeFiles_run)
qed

theorem failures_logged_not_returned_witness:
  "analyzeProject (exampleWorld True) '' /p ''
     = Inr \<lparr>returned = fooOnly, logged = [(''/p/bar.ts'', ''Unexpected token'')]\<rparr>
   \<and> (\<exists>node files.
         lookup (exampleWorld True) (resolvedPathOf (exampleWorld True) '' /p '') = Some node
         \<and> listFilesRecursively (resolvedPathOf (exampleWorld True) '' /p '') node = Inr files
         \<and> [(''/p/bar.ts'', ''Unexpected token'')]
             = concat (map (fileFailure (exampleWorld True)) (filter isCodeFile files)))"
proof -
  have run: "analyzeProject (exampleWorld True) '' /p ''
     = Inr \<lparr>returned = fooOnly, logged = [(''/p/bar.ts'', ''Unexpected token'')]\<rparr>"
    using exampleWorld_run [of True] by simp
  from failures_logged_not_returned [OF run] run show ?thesis
    by auto
qed

text \<open>
  C5 as stated fails: whether \<open>bar.ts\<close> fails to parse or parses to nothing, the
  caller gets the same value; the failure is in the log only.
\<close>

theorem failure_not_surfaced_counterexample:
  "fileFailure (exampleWorld True) ''/p/bar.ts'' = [(''/p/bar.ts'', ''Unexpected token'')]
   \<and> fileFailure (exampleWorld False) ''/p/bar.ts'' = []
   \<and> analyzeProject (exampleWorld True) '' /p ''
       = Inr \<lparr>returned = fooOnly, logged = [(''/p/bar.ts'', ''Unexpected token'')]\<rparr>
   \<and> analyzeProject (exampleWorld False) '' /p '' = Inr \<lparr>returned = fooOnly, logged = []\<rparr>"
  using exampleWorld_run [of True] exampleWorld_run [of False]
  by (simp add: fileFailure_def exampleWorld_outcome)

text \<open>
  The traversal prunes by name: every path it returns lies below the root through
  entries none of which bears an ignored name, so nothing under an ignored directory
  is returned.
\<close>

lemma keptPath_here: "name \<notin> IGNORED_DIRS \<Longrightarrow> keptPath dirPath (path_join dirPath name)"
  unfolding keptPath_def by (rule exI [of _ "[name]"]) simp

lemma keptPath_below:
  assumes "name \<notin> IGNORED_DIRS" and "keptPath (path_join dirPath name) p"
  shows "keptPath dirPath p"
proof -
  from assms(2) obtain names where
    "names \<noteq> []" "p = foldl path_join (path_join dirPath name) names"
    "set names \<inter> IGNORED_DIRS = {}"
    unfolding keptPath_def by blast
  with assms(1) show ?thesis
    unfolding keptPath_def by (intro exI [of _ "name # names"]) simp
qed

lemma listed_paths_kept:
  "listFilesRecursively dirPath node = Inr files \<Longrightarrow> \<forall>p\<in>set files. keptPath dirPath p"
  "forEachEntry dirPath entries results = Inr files \<Longrightarrow>
     \<exists>found. files = results @ found \<and> (\<forall>p\<in>set found. keptPath dirPath p)"
proof (induction dirPath node and dirPath entries results arbitrary: files and files
       rule: listFilesRecursively_forEachEntry.induct)
  case (1 dirPath)
  then show ?case by simp
next
  case (2 dirPath)
  then show ?case by simp
next
  case (3 dirPath)
  then show ?case by simp
next
  case (4 dirPath entries)
  from "4.prems" have "forEachEntry dirPath entries [] = Inr files" by simp
  from "4.IH" [OF this] show ?case by simp
next
  case (5 dirPath results)
  then show ?case by simp
next
  case (6 dirPath name node rest results)
  show ?case
  proof (cases "name \<in> IGNORED_DIRS")
    case True
    with "6.prems" have "forEachEntry dirPath rest results = Inr files" by simp
    from "6.IH"(1) [OF True this] show ?thesis .
  next
    case False
    show ?thesis
    proof (cases node)
      case File
      with "6.prems" False have
        r: "forEachEntry dirPath rest (results @ [path_join dirPath name]) = Inr files"
        by simp
      from "6.IH"(2) [OF False File r] obtain more where
        m: "files = (results @ [path_join dirPath name]) @ more"
        and k: "\<forall>p\<in>set more. keptPath dirPath p"
        by blast
      from k keptPath_here [OF False, of dirPath]
      have "\<forall>p\<in>set (path_join dirPath name # more). keptPath dirPath p" by simp
      with m show ?thesis by (intro exI [of _ "path_join dirPath name # more"]) simp
    next
      case (Dir sub)
      from "6.prems" False Dir obtain found where
        f: "listFilesRecursively (path_join dirPath name) node = Inr found" and
        r: "forEachEntry dirPath rest (results @ found) = Inr files"
        by (simp split: sum.splits)
      from "6.IH"(3) [OF False Dir f]
      have "\<forall>p\<in>set found. keptPath (path_join dirPath name) p" .
      with keptPath_below [OF False] have kf: "\<forall>p\<in>set found. keptPath dirPath p" by blast
      from "6.IH"(4) [OF False Dir f r] obtain more where
        m: "files = (results @ found) @ more" and k: "\<forall>p\<in>set more. keptPath dirPath p"
        by blast
      from kf k have "\<forall>p\<in>set (found @ more). keptPath dirPath p" by auto
      with m show ?thesis by (intro exI [of _ "found @ more"]) simp
    next
      case Unreadable
      with "6.prems" False show ?thesis by simp
    next
      case Dangling
      with "6.prems" False show ?thesis by simp
    qed
  qed
qed

text \<open>
  C8: the code at the failing input. The directory \<open>/p\<close> holds the regular files
  \<open>dist\<close> and \<open>a.ts\<close>; the traversal returns \<open>a.ts\<close> only, since the name \<open>dist\<close> is
  tested against the ignored names before the entry is known to be a directory.
\<close>

theorem regular_file_with_ignored_name_skipped:
  "listFilesRecursively ''/p'' (Dir [(''dist'', File), (''a.ts'', File)]) = Inr [''/p/a.ts'']"
  by (simp add: IGNORED_DIRS_def path_join_def)

section \<open>The chunker does not change its input\<close>

lemma unchangedBelow_refl: "n \<le> length h \<Longrightarrow> unchangedBelow n h h"
  by (simp add: unchangedBelow_def)

lemma unchangedBelow_alloc:
  assumes "unchangedBelow n h0 h" and "alloc v h = (a, h1)"
  shows "unchangedBelow n h0 h1" and "n \<le> a"
  using assms by (auto simp add: unchangedBelow_def alloc_def)

lemma unchangedBelow_push:
  assumes "unchangedBelow n h0 h" and "n \<le> a"
  shows "unchangedBelow n h0 (push a x h)"
  using assms
  by (auto simp add: unchangedBelow_def push_def split: option.splits obj.splits)

lemma functionLoopH_unchanged:
  assumes "unchangedBelow n h0 h" and "n \<le> functionChunks" and "n \<le> currentChunk"
  shows "unchangedBelow n h0 (functionLoopH m funcs functionChunks currentChunk sz h)"
  using assms
proof (induction funcs arbitrary: currentChunk sz h)
  case Nil
  then show ?case by (simp add: unchangedBelow_push)
next
  case (Cons func rest)
  show ?case
  proof (cases "readObj h func")
    case None
    with Cons show ?thesis by simp
  next
    case (Some v)
    show ?thesis
    proof (cases v)
      case (FunctionObj f)
      let ?t = "estimateTokens (stringifyFunction f)"
      obtain a h1 where a: "alloc (FunctionObj (f\<lparr>fn_body := Some truncatedBody\<rparr>)) h = (a, h1)"
        by (cases "alloc (FunctionObj (f\<lparr>fn_body := Some truncatedBody\<rparr>)) h")
      obtain c h2 where c: "alloc (ArrayObj (elements h currentChunk)) h = (c, h2)"
        by (cases "alloc (ArrayObj (elements h currentChunk)) h")
      obtain d h3 where d: "alloc (ArrayObj []) (push functionChunks c h2) = (d, h3)"
        by (cases "alloc (ArrayObj []) (push functionChunks c h2)")
      have big: "unchangedBelow n h0
                   (functionLoopH m rest functionChunks currentChunk sz (push currentChunk a h1))"
        using Cons.prems unchangedBelow_alloc [OF Cons.prems(1) a]
        by (intro Cons.IH unchangedBelow_push)
      have h2: "unchangedBelow n h0 (push functionChunks c h2)"
        using Cons.prems unchangedBelow_alloc [OF Cons.prems(1) c]
        by (intro unchangedBelow_push)
      have flush: "unchangedBelow n h0
                     (functionLoopH m rest functionChunks d ?t (push d func h3))"
        using Cons.prems unchangedBelow_alloc [OF h2 d]
        by (intro Cons.IH unchangedBelow_push)
      have keep: "unchangedBelow n h0
                    (functionLoopH m rest functionChunks currentChunk (sz + ?t)
                       (push currentChunk func h))"
        using Cons.prems by (intro Cons.IH unchangedBelow_push)
      from big flush keep show ?thesis
        by (simp add: Some FunctionObj a c d Let_def)
    qed (use Cons Some in simp_all)
  qed
qed

lemma pushPartials_unchanged:
  assumes "unchangedBelow n h0 h" and "n \<le> currentChunk"
  shows "unchangedBelow n h0 (pushPartials currentChunk ps h)"
  using assms
proof (induction ps arbitrary: h)
  case Nil
  then show ?case by simp
next
  case (Cons p ps)
  obtain a h1 where a: "alloc (ClassObj p) h = (a, h1)"
    by (cases "alloc (ClassObj p) h")
  have "unchangedBelow n h0 (pushPartials currentChunk ps (push currentChunk a h1))"
    using Cons.prems unchangedBelow_alloc [OF Cons.prems(1) a]
    by (intro Cons.IH unchangedBelow_push)
  then show ?case by (simp add: a)
qed

lemma pushMapped_unchanged:
  assumes "unchangedBelow n h0 h" and "n \<le> chunks"
  shows "unchangedBelow n h0 (pushMapped chunks mk xs h)"
  using assms
proof (induction xs arbitrary: h)
  case Nil
  then show ?case by simp
next
  case (Cons x xs)
  obtain a h1 where a: "alloc (mk x) h = (a, h1)"
    by (cases "alloc (mk x) h")
  have "unchangedBelow n h0 (pushMapped chunks mk xs (push chunks a h1))"
    using Cons.prems unchangedBelow_alloc [OF Cons.prems(1) a]
    by (intro Cons.IH unchangedBelow_push)
  then show ?case by (simp add: a)
qed

lemma classLoopH_unchanged:
  assumes "unchangedBelow n h0 h" and "n \<le> classChunks" and "n \<le> currentChunk"
  shows "unchangedBelow n h0 (classLoopH m clss classChunks currentChunk sz h)"
  using assms
proof (induction clss arbitrary: currentChunk sz h)
  case Nil
  then show ?case by (simp add: unchangedBelow_push)
next
  case (Cons cls rest)
  show ?case
  proof (cases "readObj h cls")
    case None
    with Cons show ?thesis by simp
  next
    case (Some v)
    show ?thesis
    proof (cases v)
      case (ClassObj k)
      let ?t = "estimateTokens (stringifyClass k)"
      obtain c h2 where c: "alloc (ArrayObj (elements h currentChunk)) h = (c, h2)"
        by (cases "alloc (ArrayObj (elements h currentChunk)) h")
      obtain d h3 where d: "alloc (ArrayObj []) (push classChunks c h2) = (d, h3)"
        by (cases "alloc (ArrayObj []) (push classChunks c h2)")
      have big: "unchangedBelow n h0
                   (classLoopH m rest classChunks currentChunk sz
                      (pushPartials currentChunk
                         (partialClasses k (methodLoop m (cls_methods k) [] [] 0)) h))"
        using Cons.prems by (intro Cons.IH pushPartials_unchanged)
      have h2: "unchangedBelow n h0 (push classChunks c h2)"
        using Cons.prems unchangedBelow_alloc [OF Cons.prems(1) c]
        by (intro unchangedBelow_push)
      have flush: "unchangedBelow n h0 (classLoopH m rest classChunks d ?t (push d cls h3))"
        using Cons.prems unchangedBelow_alloc [OF h2 d]
        by (intro Cons.IH unchangedBelow_push)
      have keep: "unchangedBelow n h0
                    (classLoopH m rest classChunks currentChunk (sz + ?t)
                       (push currentChunk cls h))"
        using Cons.prems by (intro Cons.IH unchangedBelow_push)
      from big flush keep show ?thesis
        by (simp add: Some ClassObj c d Let_def)
    qed (use Cons Some in simp_all)
  qed
qed

lemma functionPassH_unchanged:
  assumes "unchangedBelow n h0 h" and "n \<le> chunks"
  shows "unchangedBelow n h0 (functionPassH m chunks fa ca h)"
proof -
  obtain a h1 where a: "alloc (ArrayObj []) h = (a, h1)"
    by (cases "alloc (ArrayObj []) h")
  obtain b h2 where b: "alloc (ArrayObj []) h1 = (b, h2)"
    by (cases "alloc (ArrayObj []) h1")
  note h1 = unchangedBelow_alloc [OF assms(1) a]
  note h2 = unchangedBelow_alloc [OF h1(1) b]
  have "unchangedBelow n h0 (functionLoopH m (elements h2 fa) a b 0 h2)"
    using h1 h2 by (intro functionLoopH_unchanged)
  then show ?thesis
    using assms(2) by (simp add: functionPassH_def a b Let_def pushMapped_unchanged)
qed

lemma classPassH_unchanged:
  assumes "unchangedBelow n h0 h" and "n \<le> chunks"
  shows "unchangedBelow n h0 (classPassH m chunks fa ca h)"
proof -
  obtain a h1 where a: "alloc (ArrayObj []) h = (a, h1)"
    by (cases "alloc (ArrayObj []) h")
  obtain b h2 where b: "alloc (ArrayObj []) h1 = (b, h2)"
    by (cases "alloc (ArrayObj []) h1")
  note h1 = unchangedBelow_alloc [OF assms(1) a]
  note h2 = unchangedBelow_alloc [OF h1(1) b]
  have "unchangedBelow n h0 (classLoopH m (elements h2 ca) a b 0 h2)"
    using h1 h2 by (intro classLoopH_unchanged)
  then show ?thesis
    using assms(2) by (simp add: classPassH_def a b Let_def pushMapped_unchanged)
qed

lemma chunkCodebaseH_unchanged:
  "unchangedBelow (length h) h (snd (chunkCodebaseH context m h))"
proof -
  obtain chunks h1 where a: "alloc (ArrayObj []) h = (chunks, h1)"
    by (cases "alloc (ArrayObj []) h")
  note h1 = unchangedBelow_alloc [OF unchangedBelow_refl [OF order_refl] a]
  define h2 where "h2 = (case readObj h1 context of
                       Some (ContextObj fa ca) \<Rightarrow>
                         classPassH m chunks fa ca (functionPassH m chunks fa ca h1)
                     | _ \<Rightarrow> h1)"
  have h2: "unchangedBelow (length h) h h2"
    unfolding h2_def using h1
    by (auto split: option.splits obj.splits
        intro!: classPassH_unchanged functionPassH_unchanged)
  obtain r h3 where r: "alloc (ArrayObj [context]) h2 = (r, h3)"
    by (cases "alloc (ArrayObj [context]) h2")
  from unchangedBelow_alloc(1) [OF h2 r] h2 show ?thesis
    by (simp add: chunkCodebaseH_def a Let_def r flip: h2_def)
qed

text \<open>
  C9. Running the chunker over a store leaves every object that was there before the
  call as it was: the context, its \<open>functions\<close> and \<open>classes\<close> arrays and every entity
  in them included. The store only grows, by the arrays and objects of the chunks; so
  the lists and the entities read from the input are the same before and after.
\<close>

theorem chunker_leaves_input_unchanged:
  assumes "chunkCodebaseH context m h = (chunks, h')"
  shows "length h \<le> length h' \<and> take (length h) h' = h
         \<and> (\<forall>a < length h. readObj h' a = readObj h a)"
proof -
  from chunkCodebaseH_unchanged [of h "context" m] assms
  have le: "length h \<le> length h'" and same: "take (length h) h' = h"
    by (simp_all add: unchangedBelow_def)
  have "readObj h' a = readObj h a" if "a < length h" for a
  proof -
    from that have "h ! a = take (length h) h' ! a" by (simp only: same)
    with that le show ?thesis by (simp add: readObj_def)
  qed
  with le same show ?thesis by blast
qed

lemmas store_defs = alloc_def readObj_def elements_def push_def

lemma exampleStore_run:
  "chunkCodebaseH 0 30 exampleStore
     = (5, exampleStore
           @ [ArrayObj [9, 15], ArrayObj [7], ArrayObj [8],
              FunctionObj (exampleFunction\<lparr>fn_body := Some truncatedBody\<rparr>),
              ContextObj 7 2, ArrayObj [11], ArrayObj [12, 13, 14]]
           @ map ClassObj
               (partialClasses exampleClass
                  [[exampleMethod ''a''], [exampleMethod ''b''], [exampleMethod ''c'']])
           @ [ContextObj 1 11])"
  using exampleClass_groups
  by (simp add: chunkCodebaseH_def functionPassH_def classPassH_def exampleStore_def store_defs
      exampleFunction_tokens exampleClass_tokens methodChunksOf_def partialClasses_def Let_def)

lemma example_chunks:
  "chunkCodebase functionAndClass 30
     = [\<lparr>ar_functions = [exampleFunction\<lparr>fn_body := Some truncatedBody\<rparr>],
         ar_classes = [exampleClass]\<rparr>,
        \<lparr>ar_functions = [exampleFunction],
         ar_classes = partialClasses exampleClass
            [[exampleMethod ''a''], [exampleMethod ''b''], [exampleMethod ''c'']]\<rparr>]"
  using exampleClass_groups
  by (simp add: chunkCodebase_def functionPass_def classPass_def functionAndClass_def
      exampleFunction_tokens exampleClass_tokens methodChunksOf_def partialClasses_def Let_def)

theorem chunker_leaves_input_unchanged_witness:
  "take 5 (snd (chunkCodebaseH 0 30 exampleStore)) = exampleStore
   \<and> length exampleStore = 5
   \<and> resultsAt (snd (chunkCodebaseH 0 30 exampleStore)) (fst (chunkCodebaseH 0 30 exampleStore))
       = chunkCodebase functionAndClass 30"
proof -
  have len: "length exampleStore = 5"
    by (simp add: exampleStore_def)
  have "chunkCodebaseH 0 30 exampleStore
          = (fst (chunkCodebaseH 0 30 exampleStore), snd (chunkCodebaseH 0 30 exampleStore))"
    by simp
  from chunker_leaves_input_unchanged [OF this]
  have same: "take 5 (snd (chunkCodebaseH 0 30 exampleStore)) = exampleStore"
    by (simp add: len)
  have "resultsAt (snd (chunkCodebaseH 0 30 exampleStore)) (fst (chunkCodebaseH 0 30 exampleStore))
       = chunkCodebase functionAndClass 30"
    by (simp add: exampleStore_run example_chunks)
       (simp add: resultsAt_def functionsAt_def classesAt_def store_defs exampleStore_def
          partialClasses_def)
  with same len show ?thesis by simp
qed

end
